theory Spec2Isabelle
  imports Main "HOL-Library.Word"
begin

section \<open>Path functions of the host (posixpath)\<close>

text \<open>
  The functions of \<^verbatim>\<open>lwr/util/__init__.py\<close> work on path strings through
  \<^verbatim>\<open>os.path\<close>, which on the POSIX host is \<^verbatim>\<open>posixpath\<close> (the default
  of every \<^verbatim>\<open>local_path_module\<close> argument). The library functions are embedded
  after their Python 2.7 sources; a path is a \<^typ>\<open>string\<close>.
\<close>

abbreviation slash :: char where
  "slash \<equiv> CHR ''/''"

text \<open>\<^verbatim>\<open>p[p.rfind('/') + 1:]\<close>: what follows the last slash.\<close>

definition basename :: "string \<Rightarrow> string" where
  "basename p = rev (takeWhile (\<lambda>c. c \<noteq> slash) (rev p))"

text \<open>\<^verbatim>\<open>p[:p.rfind('/') + 1]\<close>: everything up to and including the last slash.\<close>

definition head_raw :: "string \<Rightarrow> string" where
  "head_raw p = rev (dropWhile (\<lambda>c. c \<noteq> slash) (rev p))"

text \<open>\<^verbatim>\<open>head.rstrip('/')\<close>\<close>

definition rstrip_slash :: "string \<Rightarrow> string" where
  "rstrip_slash h = rev (dropWhile (\<lambda>c. c = slash) (rev h))"

text \<open>
  \<^verbatim>\<open>
  def split(p):
      i = p.rfind('/') + 1
      head, tail = p[:i], p[i:]
      if head and head != '/'*len(head):
          head = head.rstrip('/')
      return head, tail
  \<close>
\<close>

definition split_path :: "string \<Rightarrow> string \<times> string" where
  "split_path p =
     (let head = head_raw p; tail = basename p
      in (if head \<noteq> [] \<and> (\<exists>c \<in> set head. c \<noteq> slash) then rstrip_slash head else head, tail))"

definition dirname :: "string \<Rightarrow> string" where
  "dirname p = fst (split_path p)"

definition isabs :: "string \<Rightarrow> bool" where
  "isabs p = (case p of [] \<Rightarrow> False | c # _ \<Rightarrow> c = slash)"

text \<open>
  One round of the loop of \<^verbatim>\<open>posixpath.join(a, *p)\<close>:
  \<^verbatim>\<open>
      if b.startswith('/'): path = b
      elif path == '' or path.endswith('/'): path += b
      else: path += '/' + b
  \<close>
\<close>

definition join2 :: "string \<Rightarrow> string \<Rightarrow> string" where
  "join2 path b =
     (if isabs b then b
      else if path = [] \<or> last path = slash then path @ b
      else path @ slash # b)"

definition join :: "string \<Rightarrow> string list \<Rightarrow> string" where
  "join a p = foldl join2 a p"

text \<open>\<^verbatim>\<open>str.split('/')\<close>: the pieces between the slashes, empty ones included.\<close>

fun split_slash :: "string \<Rightarrow> string list" where
  "split_slash [] = [[]]"
| "split_slash (c # cs) =
     (if c = slash then [] # split_slash cs
      else (case split_slash cs of [] \<Rightarrow> [[c]] | w # ws \<Rightarrow> (c # w) # ws))"

text \<open>\<^verbatim>\<open>'/'.join(comps)\<close>\<close>

fun join_slash :: "string list \<Rightarrow> string" where
  "join_slash [] = []"
| "join_slash [w] = w"
| "join_slash (w # ws) = w @ slash # join_slash ws"

text \<open>
  \<^verbatim>\<open>
  def normpath(path):
      if path == '': return '.'
      initial_slashes = path.startswith('/')
      if (initial_slashes and path.startswith('//') and not path.startswith('///')):
          initial_slashes = 2
      comps = path.split('/')
      new_comps = []
      for comp in comps:
          if comp in ('', '.'): continue
          if (comp != '..' or (not initial_slashes and not new_comps) or
               (new_comps and new_comps[-1] == '..')):
              new_comps.append(comp)
          elif new_comps:
              new_comps.pop()
      comps = new_comps
      path = '/'.join(comps)
      if initial_slashes: path = '/'*initial_slashes + path
      return path or '.'
  \<close>
\<close>

definition initial_slashes :: "string \<Rightarrow> nat" where
  "initial_slashes path =
     (if \<not> isabs path then 0
      else if take 2 path = ''//'' \<and> take 3 path \<noteq> ''///'' then 2
      else 1)"

definition norm_step :: "nat \<Rightarrow> string list \<Rightarrow> string \<Rightarrow> string list" where
  "norm_step n new_comps cmp =
     (if cmp = [] \<or> cmp = ''.'' then new_comps
      else if cmp \<noteq> ''..'' \<or> (n = 0 \<and> new_comps = [])
              \<or> (new_comps \<noteq> [] \<and> last new_comps = ''..'')
           then new_comps @ [cmp]
      else if new_comps \<noteq> [] then butlast new_comps
      else new_comps)"

definition normpath :: "string \<Rightarrow> string" where
  "normpath path =
     (if path = [] then ''.''
      else let n = initial_slashes path;
               comps = foldl (norm_step n) [] (split_slash path);
               p = replicate n slash @ join_slash comps
           in if p = [] then ''.'' else p)"

text \<open>
  \<^verbatim>\<open>abspath\<close> joins a relative path to \<^verbatim>\<open>os.getcwd()\<close> and normalises; the
  current directory is an argument here.
\<close>

definition abspath :: "string \<Rightarrow> string \<Rightarrow> string" where
  "abspath cwd path = normpath (if isabs path then path else join2 cwd path)"

text \<open>
  \<^verbatim>\<open>commonprefix([a, b])\<close> compares the smaller and the greater of the two strings
  character by character and returns the longest common prefix, which does not depend
  on which of the two is the smaller.
\<close>

fun commonprefix :: "string \<Rightarrow> string \<Rightarrow> string" where
  "commonprefix (x # xs) (y # ys) = (if x = y then x # commonprefix xs ys else [])"
| "commonprefix _ _ = []"

section \<open>Errors\<close>

datatype errno = ENOENT | EEXIST | EISDIR | ENOTDIR | EACCES | EXDEV | ENOSPC

datatype error =
    AssertionError
  | TypeError
  | Exception string
  | IOError errno
  | OSError errno

section \<open>Containment\<close>

text \<open>
  \<^verbatim>\<open>
  def is_in_directory(file, directory, local_path_module=os.path):
      directory = local_path_module.abspath(directory)
      file = local_path_module.abspath(file)
      return local_path_module.commonprefix([file, directory]) == directory
  \<close>
\<close>

definition is_in_directory :: "string \<Rightarrow> string \<Rightarrow> string \<Rightarrow> bool" where
  "is_in_directory cwd file directory =
     (let directory' = abspath cwd directory;
          file' = abspath cwd file
      in commonprefix file' directory' = directory')"

definition outside_msg :: string where
  "outside_msg = ''Attempt to read or write file outside an authorized directory.''"

text \<open>
  \<^verbatim>\<open>verify_is_in_directory\<close> logs a warning and raises \<^verbatim>\<open>Exception(msg)\<close> when
  the test fails, and returns nothing otherwise.
\<close>

definition verify_is_in_directory :: "string \<Rightarrow> string \<Rightarrow> string \<Rightarrow> error option" where
  "verify_is_in_directory cwd path directory =
     (if \<not> is_in_directory cwd path directory then Some (Exception outside_msg) else None)"

section \<open>JobDirectory\<close>

record JobDirectory =
  job_directory :: string

text \<open>
  \<^verbatim>\<open>
  def __init__(self, staging_directory, job_id):
      # Make sure job_id is clean, not a path hacking attempt
      assert job_id == os.path.basename(job_id)
      self.job_directory = os.path.join(staging_directory, job_id)
  \<close>
  The assertion is taken to be executed (the interpreter does not run with \<^verbatim>\<open>-O\<close>);
  it raises \<^verbatim>\<open>AssertionError\<close>.
\<close>

definition JobDirectory_init :: "string \<Rightarrow> string \<Rightarrow> error + JobDirectory" where
  "JobDirectory_init staging_directory job_id =
     (if job_id \<noteq> basename job_id then Inl AssertionError
      else Inr \<lparr>job_directory = join staging_directory [job_id]\<rparr>)"

definition sub_dir :: "JobDirectory \<Rightarrow> string \<Rightarrow> string" where
  "sub_dir jd name = join (job_directory jd) [name]"

definition working_directory :: "JobDirectory \<Rightarrow> string" where
  "working_directory jd = sub_dir jd ''working''"

definition inputs_directory :: "JobDirectory \<Rightarrow> string" where
  "inputs_directory jd = sub_dir jd ''inputs''"

definition outputs_directory :: "JobDirectory \<Rightarrow> string" where
  "outputs_directory jd = sub_dir jd ''outputs''"

definition configs_directory :: "JobDirectory \<Rightarrow> string" where
  "configs_directory jd = sub_dir jd ''configs''"

definition tool_files_directory :: "JobDirectory \<Rightarrow> string" where
  "tool_files_directory jd = sub_dir jd ''tool_files''"

definition unstructured_files_directory :: "JobDirectory \<Rightarrow> string" where
  "unstructured_files_directory jd = sub_dir jd ''unstructured''"

definition job_file :: "JobDirectory \<Rightarrow> string \<Rightarrow> string" where
  "job_file jd name = join (job_directory jd) [name]"

section \<open>The operating system\<close>

text \<open>
  The calls the module makes on the operating system and the standard library are
  the fields of an environment over a state \<open>'fs\<close> of the file system. A call that can
  raise returns the exception beside the state it leaves, which for a call that failed
  half-way need not be the state it started from.
  \<^item> \<open>getcwd\<close>: \<^verbatim>\<open>os.getcwd()\<close>, read by \<^verbatim>\<open>abspath\<close>;
  \<^item> \<open>path_exists\<close>: \<^verbatim>\<open>os.path.exists(path)\<close>;
  \<^item> \<open>makedirs\<close>: \<^verbatim>\<open>os.makedirs(path)\<close>;
  \<^item> \<open>read_all\<close>: \<^verbatim>\<open>open(path, 'rb')\<close>, \<^verbatim>\<open>read()\<close> and \<^verbatim>\<open>close()\<close>;
  \<^item> \<open>write_all\<close>: \<^verbatim>\<open>open(path, 'wb')\<close>, \<^verbatim>\<open>write(data)\<close> and \<^verbatim>\<open>close()\<close>;
  \<^item> \<open>move\<close>: \<^verbatim>\<open>shutil.move(src, dst)\<close>;
  \<^item> \<open>rename\<close>: \<^verbatim>\<open>os.rename(src, dst)\<close>.
\<close>

type_synonym bytes = "8 word list"

record 'fs os =
  getcwd :: "'fs \<Rightarrow> string"
  path_exists :: "'fs \<Rightarrow> string \<Rightarrow> bool"
  makedirs :: "'fs \<Rightarrow> string \<Rightarrow> error option \<times> 'fs"
  read_all :: "'fs \<Rightarrow> string \<Rightarrow> error + bytes"
  write_all :: "'fs \<Rightarrow> string \<Rightarrow> bytes \<Rightarrow> error option \<times> 'fs"
  move :: "'fs \<Rightarrow> string \<Rightarrow> string \<Rightarrow> error option \<times> 'fs"
  rename :: "'fs \<Rightarrow> string \<Rightarrow> string \<Rightarrow> error option \<times> 'fs"

section \<open>atomicish_move\<close>

text \<open>
  \<^verbatim>\<open>
  def atomicish_move(source, destination, tmp_suffix="_TMP"):
      destination_dir = os.path.dirname(destination)
      destination_name = os.path.basename(destination)
      temp_destination = os.path.join(destination_dir, "%s%s" % (destination_name, tmp_suffix))
      move(source, temp_destination)
      os.rename(temp_destination, destination)
  \<close>
\<close>

definition temp_destination :: "string \<Rightarrow> string \<Rightarrow> string" where
  "temp_destination destination tmp_suffix =
     (let destination_dir = dirname destination;
          destination_name = basename destination
      in join destination_dir [destination_name @ tmp_suffix])"

definition atomicish_move ::
  "'fs os \<Rightarrow> 'fs \<Rightarrow> string \<Rightarrow> string \<Rightarrow> string \<Rightarrow> error option \<times> 'fs" where
  "atomicish_move E s source destination tmp_suffix =
     (let temp = temp_destination destination tmp_suffix
      in case move E s source temp of
           (Some e, s1) \<Rightarrow> (Some e, s1)
         | (None, s1) \<Rightarrow> rename E s1 temp destination)"

section \<open>Control files of a JobDirectory\<close>

text \<open>
  \<^verbatim>\<open>
  def read_file(self, name, default=None):
      path = self._job_file(name)
      job_file = None
      try:
          job_file = open(path, 'rb')
          return job_file.read()
      except:
          if default is not None:
              return default
          else:
              raise
      finally:
          if job_file:
              job_file.close()
  \<close>
  The argument \<open>dflt\<close> (the \<^verbatim>\<open>default\<close> of the source) is \<open>None\<close> when the caller gave none.
\<close>

definition read_file ::
  "'fs os \<Rightarrow> 'fs \<Rightarrow> JobDirectory \<Rightarrow> string \<Rightarrow> bytes option \<Rightarrow> error + bytes" where
  "read_file E s jd name dflt =
     (let path = job_file jd name
      in case read_all E s path of
           Inr contents \<Rightarrow> Inr contents
         | Inl e \<Rightarrow> (case dflt of Some d \<Rightarrow> Inr d | None \<Rightarrow> Inl e))"

text \<open>
  The contents given to \<^verbatim>\<open>write_file\<close> are text (\<^verbatim>\<open>six.text_type\<close>, a sequence of
  code points) or bytes. Text is encoded with \<^verbatim>\<open>contents.encode("UTF-8")\<close>: one to
  four bytes for each code point.
\<close>

datatype contents = Text "nat list" | Bytes bytes

definition utf8_encode_char :: "nat \<Rightarrow> bytes" where
  "utf8_encode_char c =
     (if c < 0x80 then [of_nat c]
      else if c < 0x800 then [of_nat (0xC0 + c div 0x40), of_nat (0x80 + c mod 0x40)]
      else if c < 0x10000 then
        [of_nat (0xE0 + c div 0x1000), of_nat (0x80 + (c div 0x40) mod 0x40),
         of_nat (0x80 + c mod 0x40)]
      else
        [of_nat (0xF0 + c div 0x40000), of_nat (0x80 + (c div 0x1000) mod 0x40),
         of_nat (0x80 + (c div 0x40) mod 0x40), of_nat (0x80 + c mod 0x40)])"

definition utf8_encode :: "nat list \<Rightarrow> bytes" where
  "utf8_encode t = concat (map utf8_encode_char t)"

text \<open>
  \<^verbatim>\<open>
  def write_file(self, name, contents):
      path = self._job_file(name)
      job_file = open(path, 'wb')
      try:
          if isinstance(contents, six.text_type):
              contents = contents.encode("UTF-8")
          job_file.write(contents)
      finally:
          job_file.close()
      return path
  \<close>
\<close>

definition write_file ::
  "'fs os \<Rightarrow> 'fs \<Rightarrow> JobDirectory \<Rightarrow> string \<Rightarrow> contents \<Rightarrow> (error + string) \<times> 'fs" where
  "write_file E s jd name contents =
     (let path = job_file jd name;
          data = (case contents of Text t \<Rightarrow> utf8_encode t | Bytes b \<Rightarrow> b)
      in case write_all E s path data of
           (Some e, s') \<Rightarrow> (Inl e, s')
         | (None, s') \<Rightarrow> (Inr path, s'))"

section \<open>Mapping a remote path into a directory\<close>

text \<open>
  \<^verbatim>\<open>
  def __posix_to_local_path(path, local_path_module=os.path):
      partial_path = deque()
      while True:
          if not path or path == '/':
              break
          (path, base) = posixpath.split(path)
          partial_path.appendleft(base)
      return local_path_module.join(*partial_path)
  \<close>
  The loop does not end on every path (\<^verbatim>\<open>posixpath.split('//')\<close> is
  \<^verbatim>\<open>('//', '')\<close>), so it is a partial function, \<open>None\<close> when it runs forever. On the
  empty path and on \<^verbatim>\<open>'/'\<close> the deque is empty and \<^verbatim>\<open>join()\<close>, called without
  its first argument, raises \<^verbatim>\<open>TypeError\<close>.
\<close>

partial_function (option) posix_loop :: "string \<Rightarrow> string list \<Rightarrow> string list option" where
  "posix_loop path partial_path =
     (if path = [] \<or> path = ''/'' then Some partial_path
      else (case split_path path of (path', base) \<Rightarrow> posix_loop path' (base # partial_path)))"

declare posix_loop.simps [code]

definition posix_to_local_path :: "string \<Rightarrow> (error + string) option" where
  "posix_to_local_path path =
     (case posix_loop path [] of
        None \<Rightarrow> None
      | Some [] \<Rightarrow> Some (Inl TypeError)
      | Some (a # p) \<Rightarrow> Some (Inr (join a p)))"

text \<open>
  \<^verbatim>\<open>
  def get_mapped_file(directory, remote_path, allow_nested_files=False,
                      local_path_module=os.path, mkdir=True):
      if not allow_nested_files:
          name = local_path_module.basename(remote_path)
          path = local_path_module.join(directory, name)
      else:
          local_rel_path = __posix_to_local_path(remote_path, local_path_module=local_path_module)
          local_path = local_path_module.join(directory, local_rel_path)
          verify_is_in_directory(local_path, directory, local_path_module=local_path_module)
          local_directory = local_path_module.dirname(local_path)
          if mkdir and not local_path_module.exists(local_directory):
              os.makedirs(local_directory)
          path = local_path
      return path
  \<close>
  The result is the returned path or the exception raised, beside the state of the
  file system at that moment; \<open>None\<close> when the call does not return.
\<close>

definition get_mapped_file ::
  "'fs os \<Rightarrow> 'fs \<Rightarrow> string \<Rightarrow> string \<Rightarrow> bool \<Rightarrow> bool \<Rightarrow> ((error + string) \<times> 'fs) option" where
  "get_mapped_file E s directory remote_path allow_nested_files mkdir =
     (if \<not> allow_nested_files then
        (let name = basename remote_path;
             path = join directory [name]
         in Some (Inr path, s))
      else
        (case posix_to_local_path remote_path of
           None \<Rightarrow> None
         | Some (Inl e) \<Rightarrow> Some (Inl e, s)
         | Some (Inr local_rel_path) \<Rightarrow>
             (let local_path = join directory [local_rel_path]
              in case verify_is_in_directory (getcwd E s) local_path directory of
                   Some e \<Rightarrow> Some (Inl e, s)
                 | None \<Rightarrow>
                     (let local_directory = dirname local_path
                      in if mkdir \<and> \<not> path_exists E s local_directory then
                           (case makedirs E s local_directory of
                              (Some e, s') \<Rightarrow> Some (Inl e, s')
                            | (None, s') \<Rightarrow> Some (Inr local_path, s'))
                         else Some (Inr local_path, s)))))"

section \<open>The translation in the words of the specification\<close>

text \<open>
  The specification describes the translation of a remote path as splitting it on
  \<^verbatim>\<open>/\<close> and joining the components again with the separator of the host, every
  component kept; on the POSIX host the separator is \<^verbatim>\<open>/\<close>. This definition follows
  those words, for comparison with \<open>posix_to_local_path\<close>.
\<close>

definition spec_posix_to_local_path :: "string \<Rightarrow> string" where
  "spec_posix_to_local_path p = join_slash (split_slash p)"

text \<open>
  The components the loop of \<open>posix_to_local_path\<close> keeps of a relative path: those
  before the last slash that are not empty, and what follows the last slash.
\<close>

definition kept_components :: "string \<Rightarrow> string list" where
  "kept_components p =
     filter (\<lambda>w. w \<noteq> []) (butlast (split_slash p)) @ [last (split_slash p)]"

text \<open>A component that \<^verbatim>\<open>normpath\<close> appends as it is.\<close>

definition normal_name :: "string \<Rightarrow> bool" where
  "normal_name w = (w \<noteq> [] \<and> w \<noteq> ''.'' \<and> w \<noteq> ''..'')"

section \<open>What a call leaves untouched\<close>

text \<open>
  What can be seen of a path in a state of the file system: whether it exists, and what
  reading it gives.
\<close>

definition observe :: "'fs os \<Rightarrow> 'fs \<Rightarrow> string \<Rightarrow> bool \<times> (error + bytes)" where
  "observe E s p = (path_exists E s p, read_all E s p)"

text \<open>
  Two paths are separate when, made absolute, neither is the other nor lies under the
  other, component by component.
\<close>

definition inside :: "string \<Rightarrow> string \<Rightarrow> bool" where
  "inside x y =
     (x = y \<or> y = replicate (length y) slash \<or> take (Suc (length y)) x = y @ ''/'')"

definition separate :: "string \<Rightarrow> string \<Rightarrow> string \<Rightarrow> bool" where
  "separate cwd p q =
     (let x = abspath cwd p; y = abspath cwd q in \<not> inside x y \<and> \<not> inside y x)"

section \<open>A file system in memory\<close>

text \<open>
  An instance of the environment on which the functions run: a table from normalised
  absolute paths to files and directories. It has no links and no permissions,
  \<open>mem_rename\<close> moves files only, and \<open>mem_move\<close> is a rename unless a fault is
  injected: under \<open>CopyFails n\<close> the rename is refused, as it is across devices, and
  the copy that \<^verbatim>\<open>shutil.move\<close> falls back on stops after \<open>n\<close> bytes.
\<close>

datatype node = File bytes | Dir

record mem_fs =
  mem_cwd :: string
  mem_nodes :: "string \<Rightarrow> node option"

definition mem_key :: "mem_fs \<Rightarrow> string \<Rightarrow> string" where
  "mem_key s p = abspath (mem_cwd s) p"

definition mem_exists :: "mem_fs \<Rightarrow> string \<Rightarrow> bool" where
  "mem_exists s p = (mem_nodes s (mem_key s p) \<noteq> None)"

definition mem_read :: "mem_fs \<Rightarrow> string \<Rightarrow> error + bytes" where
  "mem_read s p =
     (case mem_nodes s (mem_key s p) of
        None \<Rightarrow> Inl (IOError ENOENT)
      | Some Dir \<Rightarrow> Inl (IOError EISDIR)
      | Some (File b) \<Rightarrow> Inr b)"

definition mem_write :: "mem_fs \<Rightarrow> string \<Rightarrow> bytes \<Rightarrow> error option \<times> mem_fs" where
  "mem_write s p b =
     (let k = mem_key s p
      in if mem_nodes s k = Some Dir then (Some (IOError EISDIR), s)
         else if mem_nodes s (dirname k) \<noteq> Some Dir then (Some (IOError ENOENT), s)
         else (None, s\<lparr>mem_nodes := (mem_nodes s)(k \<mapsto> File b)\<rparr>))"

definition ancestors :: "string \<Rightarrow> string list" where
  "ancestors k =
     (let comps = split_slash k
      in map (\<lambda>i. join_slash (take i comps)) [2..<Suc (length comps)])"

fun mkdir_all ::
  "string list \<Rightarrow> (string \<Rightarrow> node option) \<Rightarrow> error option \<times> (string \<Rightarrow> node option)" where
  "mkdir_all [] m = (None, m)"
| "mkdir_all (k # ks) m =
     (case m k of
        Some (File _) \<Rightarrow> (Some (OSError ENOTDIR), m)
      | Some Dir \<Rightarrow> mkdir_all ks m
      | None \<Rightarrow> mkdir_all ks (m(k \<mapsto> Dir)))"

definition mem_makedirs :: "mem_fs \<Rightarrow> string \<Rightarrow> error option \<times> mem_fs" where
  "mem_makedirs s p =
     (let k = mem_key s p
      in if mem_nodes s k \<noteq> None then (Some (OSError EEXIST), s)
         else (case mkdir_all (ancestors k) (mem_nodes s) of
                 (r, m) \<Rightarrow> (r, s\<lparr>mem_nodes := m\<rparr>)))"

definition mem_rename :: "mem_fs \<Rightarrow> string \<Rightarrow> string \<Rightarrow> error option \<times> mem_fs" where
  "mem_rename s a b =
     (let ka = mem_key s a; kb = mem_key s b
      in case mem_nodes s ka of
           None \<Rightarrow> (Some (OSError ENOENT), s)
         | Some Dir \<Rightarrow> (Some (OSError EACCES), s)
         | Some (File c) \<Rightarrow>
             if mem_nodes s (dirname kb) \<noteq> Some Dir then (Some (OSError ENOENT), s)
             else if mem_nodes s kb = Some Dir then (Some (OSError EISDIR), s)
             else (None, s\<lparr>mem_nodes := ((mem_nodes s)(ka := None))(kb \<mapsto> File c)\<rparr>))"

datatype fault = NoFault | CopyFails nat

definition mem_move :: "fault \<Rightarrow> mem_fs \<Rightarrow> string \<Rightarrow> string \<Rightarrow> error option \<times> mem_fs" where
  "mem_move f s a b =
     (case f of
        NoFault \<Rightarrow> mem_rename s a b
      | CopyFails n \<Rightarrow>
          (case mem_read s a of
             Inl e \<Rightarrow> (Some e, s)
           | Inr c \<Rightarrow>
               (case mem_write s b (take n c) of
                  (Some e, s') \<Rightarrow> (Some e, s')
                | (None, s') \<Rightarrow> (Some (IOError ENOSPC), s'))))"

definition mem_os :: "fault \<Rightarrow> mem_fs os" where
  "mem_os f =
     \<lparr>getcwd = mem_cwd, path_exists = mem_exists, makedirs = mem_makedirs,
      read_all = mem_read, write_all = mem_write, move = mem_move f, rename = mem_rename\<rparr>"

text \<open>A staging directory with one job, \<^verbatim>\<open>101\<close>, that holds one control file.\<close>

definition fs0 :: mem_fs where
  "fs0 = \<lparr>mem_cwd = ''/'',
          mem_nodes = [''/'' \<mapsto> Dir, ''/staging'' \<mapsto> Dir, ''/staging/101'' \<mapsto> Dir,
                       ''/staging/101/meta'' \<mapsto> File [104, 105]]\<rparr>"

text \<open>The job directory of job \<^verbatim>\<open>101\<close>.\<close>

definition jd0 :: JobDirectory where
  "jd0 = \<lparr>job_directory = ''/staging/101''\<rparr>"

text \<open>
  The same file system once the directories \<^verbatim>\<open>a\<close> and \<^verbatim>\<open>a/b\<close> are made in
  the job directory.
\<close>

definition fs_ab :: mem_fs where
  "fs_ab = fs0\<lparr>mem_nodes :=
             (mem_nodes fs0)(''/staging/101/a'' \<mapsto> Dir, ''/staging/101/a/b'' \<mapsto> Dir)\<rparr>"

text \<open>The same file system once the control file \<^verbatim>\<open>pid\<close> is written.\<close>

definition fs_pid :: mem_fs where
  "fs_pid = fs0\<lparr>mem_nodes :=
              (mem_nodes fs0)(''/staging/101/pid'' \<mapsto>
                 File [0x34, 0x32, 0xC3, 0xA9, 0xE2, 0x82, 0xAC])\<rparr>"

text \<open>
  The job with an output directory and a result file; the state after a copy of the
  result to \<^verbatim>\<open>outputs/data_TMP\<close> that stopped after two bytes; the state after the
  result was moved to \<^verbatim>\<open>outputs_TMP\<close>.
\<close>

definition fs_out :: mem_fs where
  "fs_out = fs0\<lparr>mem_nodes := (mem_nodes fs0)(''/staging/101/outputs'' \<mapsto> Dir,
                 ''/staging/101/result'' \<mapsto> File [1, 2, 3, 4])\<rparr>"

definition fs_partial :: mem_fs where
  "fs_partial = fs_out\<lparr>mem_nodes :=
                  (mem_nodes fs_out)(''/staging/101/outputs/data_TMP'' \<mapsto> File [1, 2])\<rparr>"

definition fs_moved :: mem_fs where
  "fs_moved = fs_out\<lparr>mem_nodes := (mem_nodes fs_out)(''/staging/101/result'' := None,
                 ''/staging/101/outputs_TMP'' \<mapsto> File [1, 2, 3, 4])\<rparr>"

section \<open>Properties\<close>

lemmas path_defs = basename_def head_raw_def rstrip_slash_def split_path_def dirname_def
  isabs_def join2_def join_def initial_slashes_def norm_step_def normpath_def abspath_def

lemmas mem_defs = mem_os_def mem_key_def mem_exists_def mem_read_def mem_write_def
  mem_makedirs_def mem_rename_def mem_move_def ancestors_def fs0_def

subsection \<open>Base names\<close>

lemma basename_no_slash: "slash \<notin> set (basename p)"
  unfolding basename_def using set_takeWhileD by fastforce

lemma basename_slash: "slash \<in> set p \<Longrightarrow> basename p \<noteq> p"
  using basename_no_slash [of p] by auto

lemma basename_plain: "slash \<notin> set p \<Longrightarrow> basename p = p"
proof -
  assume "slash \<notin> set p"
  then have "takeWhile (\<lambda>c. c \<noteq> slash) (rev p) = rev p"
    by (intro takeWhile_eq_all_conv [THEN iffD2]) auto
  then show ?thesis unfolding basename_def by (simp only: rev_rev_ident)
qed

subsection \<open>Joining a plain name\<close>

lemma takeWhile_all: "slash \<notin> set n \<Longrightarrow> takeWhile (\<lambda>c. c \<noteq> slash) n = n"
  by (induction n) auto

lemma basename_append_slash: "slash \<notin> set n \<Longrightarrow> basename (r @ slash # n) = n"
proof -
  assume n: "slash \<notin> set n"
  have "takeWhile (\<lambda>c. c \<noteq> slash) (rev n @ slash # rev r) = takeWhile (\<lambda>c. c \<noteq> slash) (rev n)"
    by (rule takeWhile_tail) simp
  also have "\<dots> = rev n" using n by (simp add: takeWhile_all)
  finally show ?thesis by (simp add: basename_def)
qed

lemma plain_not_abs: "slash \<notin> set n \<Longrightarrow> \<not> isabs n"
  by (cases n) (auto simp: isabs_def)

lemma basename_join2: "slash \<notin> set n \<Longrightarrow> basename (join2 r n) = n"
proof -
  assume n: "slash \<notin> set n"
  show ?thesis
  proof (cases "r = []")
    case True
    then show ?thesis using n by (simp add: join2_def plain_not_abs basename_plain)
  next
    case False
    show ?thesis
    proof (cases "last r = slash")
      case True
      with False obtain r' where r: "r = r' @ [slash]" by (metis append_butlast_last_id)
      have "basename (r' @ slash # n) = n" using n by (rule basename_append_slash)
      then show ?thesis using n r by (simp add: join2_def plain_not_abs)
    next
      case False
      then show ?thesis using n \<open>r \<noteq> []\<close>
        by (simp add: join2_def plain_not_abs basename_append_slash)
    qed
  qed
qed

subsection \<open>Directory names and the temporary name of atomicish_move\<close>

lemma rstrip_id: "h \<noteq> [] \<Longrightarrow> last h \<noteq> slash \<Longrightarrow> rstrip_slash h = h"
  by (cases h rule: rev_cases) (auto simp: rstrip_slash_def)

lemma rstrip_snoc_slash: "rstrip_slash (h @ [slash]) = rstrip_slash h"
  by (simp add: rstrip_slash_def)

lemma rstrip_shape: "rstrip_slash h = [] \<or> last (rstrip_slash h) \<noteq> slash"
proof (cases "dropWhile (\<lambda>c. c = slash) (rev h)")
  case Nil
  then show ?thesis by (simp add: rstrip_slash_def)
next
  case (Cons x xs)
  then have "x \<noteq> slash" using hd_dropWhile [of "\<lambda>c. c = slash" "rev h"] by auto
  with Cons show ?thesis by (simp add: rstrip_slash_def)
qed

lemma rstrip_nonempty: "\<exists>c \<in> set h. c \<noteq> slash \<Longrightarrow> rstrip_slash h \<noteq> []"
  by (auto simp: rstrip_slash_def dropWhile_eq_Nil_conv)

lemma all_slash_replicate: "\<not> (\<exists>c \<in> set h. c \<noteq> slash) \<Longrightarrow> h = replicate (length h) slash"
  by (induction h) auto

lemma dirname_shape:
  "dirname d = replicate (length (dirname d)) slash
   \<or> (dirname d \<noteq> [] \<and> last (dirname d) \<noteq> slash)"
proof (cases "head_raw d \<noteq> [] \<and> (\<exists>c \<in> set (head_raw d). c \<noteq> slash)")
  case True
  then have "dirname d = rstrip_slash (head_raw d)"
    by (simp add: dirname_def split_path_def Let_def)
  moreover have "rstrip_slash (head_raw d) \<noteq> []" using True by (simp add: rstrip_nonempty)
  ultimately show ?thesis using rstrip_shape [of "head_raw d"] by auto
next
  case False
  then have "dirname d = head_raw d" by (auto simp: dirname_def split_path_def Let_def)
  moreover have "\<not> (\<exists>c \<in> set (head_raw d). c \<noteq> slash)" using False by auto
  ultimately show ?thesis using all_slash_replicate [of "head_raw d"] by simp
qed

lemma head_raw_append_slash: "slash \<notin> set n \<Longrightarrow> head_raw (r @ slash # n) = r @ [slash]"
proof -
  assume n: "slash \<notin> set n"
  have "dropWhile (\<lambda>c. c \<noteq> slash) (rev n @ slash # rev r) = slash # rev r"
    using n by (induction n rule: rev_induct) auto
  then show ?thesis by (simp add: head_raw_def)
qed

lemma head_raw_plain: "slash \<notin> set n \<Longrightarrow> head_raw n = []"
  by (auto simp: head_raw_def dropWhile_eq_Nil_conv)

lemma dirname_plain: "slash \<notin> set n \<Longrightarrow> dirname n = []"
  by (simp add: dirname_def split_path_def head_raw_plain)

lemma dirname_append_slash:
  assumes "slash \<notin> set n"
  shows "dirname (r @ slash # n)
         = (if \<exists>c \<in> set r. c \<noteq> slash then rstrip_slash r else r @ [slash])"
  using assms by (auto simp: dirname_def split_path_def head_raw_append_slash rstrip_snoc_slash)

lemma dirname_join2_plain:
  assumes n: "slash \<notin> set n"
  shows "dirname (join2 r n) = (if \<exists>c \<in> set r. c \<noteq> slash then rstrip_slash r else r)"
proof (cases "r = []")
  case True
  then show ?thesis using n by (simp add: join2_def plain_not_abs dirname_plain)
next
  case ne: False
  show ?thesis
  proof (cases "last r = slash")
    case True
    with ne obtain r' where r: "r = r' @ [slash]" by (metis append_butlast_last_id)
    then have "join2 r n = r' @ slash # n" using n by (simp add: join2_def plain_not_abs)
    then have "dirname (join2 r n) = (if \<exists>c \<in> set r'. c \<noteq> slash then rstrip_slash r' else r' @ [slash])"
      using dirname_append_slash [OF n, of r'] by simp
    then show ?thesis using r by (auto simp: rstrip_snoc_slash)
  next
    case False
    then have "join2 r n = r @ slash # n" using n ne by (simp add: join2_def plain_not_abs)
    moreover have "\<exists>c \<in> set r. c \<noteq> slash" using ne False by (metis last_in_set)
    ultimately show ?thesis
      using dirname_append_slash [OF n, of r] ne False by (simp add: rstrip_id)
  qed
qed

lemma temp_same_dir:
  assumes sfx: "slash \<notin> set sfx"
  shows "dirname (temp_destination d sfx) = dirname d \<and>
         basename (temp_destination d sfx) = basename d @ sfx"
proof -
  let ?D = "dirname d" and ?n = "basename d @ sfx"
  have n: "slash \<notin> set ?n" using sfx basename_no_slash [of d] by simp
  have t: "temp_destination d sfx = join2 ?D ?n"
    by (simp add: temp_destination_def join_def)
  have b: "basename (join2 ?D ?n) = ?n" using n by (rule basename_join2)
  have "dirname (join2 ?D ?n) = ?D"
  proof (cases "?D = []")
    case True
    then show ?thesis using n by (simp add: join2_def plain_not_abs dirname_plain del: set_append)
  next
    case ne: False
    show ?thesis
    proof (cases "last ?D = slash")
      case True
      with ne dirname_shape [of d] have rep: "?D = replicate (length ?D) slash" by blast
      from ne True obtain r where r: "?D = r @ [slash]" by (metis append_butlast_last_id)
      have allr: "\<not> (\<exists>c \<in> set r. c \<noteq> slash)"
      proof
        assume "\<exists>c \<in> set r. c \<noteq> slash"
        then obtain c where "c \<in> set ?D" "c \<noteq> slash" using r by auto
        moreover have "set ?D \<subseteq> {slash}" using rep by (metis set_replicate_conv_if empty_subsetI subset_refl)
        ultimately show False by auto
      qed
      have "join2 ?D ?n = r @ slash # ?n"
        using n r True ne by (simp add: join2_def plain_not_abs del: set_append)
      then have "dirname (join2 ?D ?n) = r @ [slash]"
        using dirname_append_slash [OF n, of r] allr by simp
      then show ?thesis using r by simp
    next
      case False
      have "join2 ?D ?n = ?D @ slash # ?n"
        using n False ne by (simp add: join2_def plain_not_abs del: set_append)
      moreover have "\<exists>c \<in> set ?D. c \<noteq> slash" using ne False by (metis last_in_set)
      ultimately have "dirname (join2 ?D ?n) = rstrip_slash ?D"
        using dirname_append_slash [OF n, of ?D] by simp
      then show ?thesis using ne False by (simp add: rstrip_id)
    qed
  qed
  with b t show ?thesis by simp
qed

subsection \<open>Containment by common prefix\<close>

text \<open>
  C1. For absolute paths the containment test holds for a path under the root,
  \<^verbatim>\<open>/a/b/c\<close> under \<^verbatim>\<open>/a/b\<close>, and is claimed not to hold for the sibling
  \<^verbatim>\<open>/a/bEvil\<close>, whose name extends the root's name. The test compares characters,
  not components: \<^verbatim>\<open>commonprefix(['/a/bEvil', '/a/b'])\<close> is \<^verbatim>\<open>/a/b\<close>, the root
  itself, and \<open>is_in_directory\<close> returns true on the sibling too, whatever the current
  directory is.
\<close>

theorem is_in_directory_sibling_prefix:
  "is_in_directory cwd ''/a/b/c'' ''/a/b'' \<and> is_in_directory cwd ''/a/bEvil'' ''/a/b''"
  by (simp add: is_in_directory_def path_defs)

subsection \<open>The job id of a JobDirectory\<close>

text \<open>
  A job id that contains a separator is not its own base name and fails the assertion
  of the constructor; a job id without separator passes it.
\<close>

lemma JobDirectory_init_separator:
  "slash \<in> set job_id \<Longrightarrow> JobDirectory_init staging job_id = Inl AssertionError"
  using basename_slash [of job_id] by (auto simp: JobDirectory_init_def)

lemma JobDirectory_init_plain:
  "slash \<notin> set job_id \<Longrightarrow>
   JobDirectory_init staging job_id = Inr \<lparr>job_directory = join staging [job_id]\<rparr>"
  by (simp add: JobDirectory_init_def basename_plain)

text \<open>
  C2. Constructing a JobDirectory with a job id that contains a separator or is the
  parent reference \<^verbatim>\<open>..\<close> is claimed to fail before the directory path is built.
  The assertion compares the job id with its base name only, and \<^verbatim>\<open>..\<close> is its own
  base name: the constructor accepts it, for every staging directory, and the job
  directory is the staging directory joined with \<^verbatim>\<open>..\<close>.
\<close>

theorem JobDirectory_init_parent_reference:
  "JobDirectory_init staging ''..'' = Inr \<lparr>job_directory = join staging [''..'']\<rparr>
   \<and> JobDirectory_init ''/staging'' ''..'' = Inr \<lparr>job_directory = ''/staging/..''\<rparr>"
  by (simp add: JobDirectory_init_def basename_def join_def join2_def isabs_def)

subsection \<open>Mapping with nested files\<close>

lemma posix_to_local_path_passwd:
  "posix_to_local_path ''../../etc/passwd'' = Some (Inr ''../../etc/passwd'')"
  by (simp add: posix_to_local_path_def posix_loop.simps path_defs)

text \<open>
  C3. With nested files allowed, when the candidate path built from the remote path
  fails the containment test, \<open>get_mapped_file\<close> raises the exception of
  \<open>verify_is_in_directory\<close> and the file system is in the state it was in: the test
  comes before \<^verbatim>\<open>os.makedirs\<close>, whatever the \<open>mkdir\<close> flag.
\<close>

theorem get_mapped_file_verifies_first:
  assumes "posix_to_local_path remote_path = Some (Inr rel)"
    and "\<not> is_in_directory (getcwd E s) (join directory [rel]) directory"
  shows "get_mapped_file E s directory remote_path True mkdir
         = Some (Inl (Exception outside_msg), s)"
  using assms by (simp add: get_mapped_file_def verify_is_in_directory_def)

theorem get_mapped_file_verifies_first_witness:
  "posix_to_local_path ''../../etc/passwd'' = Some (Inr ''../../etc/passwd'')
   \<and> \<not> is_in_directory (getcwd (mem_os NoFault) fs0)
         (join ''/staging/101'' [''../../etc/passwd'']) ''/staging/101''
   \<and> get_mapped_file (mem_os NoFault) fs0 ''/staging/101'' ''../../etc/passwd'' True True
       = Some (Inl (Exception outside_msg), fs0)"
proof -
  have h1: "posix_to_local_path ''../../etc/passwd'' = Some (Inr ''../../etc/passwd'')"
    by (rule posix_to_local_path_passwd)
  have h2: "\<not> is_in_directory (getcwd (mem_os NoFault) fs0)
              (join ''/staging/101'' [''../../etc/passwd'']) ''/staging/101''"
    by (simp add: is_in_directory_def path_defs mem_defs)
  from get_mapped_file_verifies_first [OF h1 h2] h1 h2 show ?thesis by blast
qed

subsection \<open>Mapping without nested files\<close>

text \<open>
  C4. Without nested files \<open>get_mapped_file\<close> returns the directory joined with the
  base name of the remote path, and the result is claimed to lie inside the directory
  always. The base name of \<^verbatim>\<open>..\<close> is \<^verbatim>\<open>..\<close>, and this branch does not call
  \<open>verify_is_in_directory\<close>: for the directory \<^verbatim>\<open>/staging/101\<close> the result is
  \<^verbatim>\<open>/staging/101/..\<close>, which is \<^verbatim>\<open>/staging\<close> and fails the module's own
  containment test.
\<close>

theorem get_mapped_file_flat_parent_reference:
  "get_mapped_file E s ''/staging/101'' ''..'' False mkdir = Some (Inr ''/staging/101/..'', s)
   \<and> abspath cwd ''/staging/101/..'' = ''/staging''
   \<and> \<not> is_in_directory cwd ''/staging/101/..'' ''/staging/101''"
  by (simp add: get_mapped_file_def is_in_directory_def path_defs)

subsection \<open>The subdirectories of a job\<close>

text \<open>
  C8. Each of the six accessors returns the job directory joined with its fixed name
  (\<^verbatim>\<open>working\<close>, \<^verbatim>\<open>inputs\<close>, \<^verbatim>\<open>outputs\<close>, \<^verbatim>\<open>configs\<close>, \<^verbatim>\<open>tool_files\<close>,
  \<^verbatim>\<open>unstructured\<close>), a path whose last component is that name. The accessors read
  the job directory only and call nothing that can raise; they are functions of it, so
  that a repeated call returns the same path.
\<close>

theorem sub_dir_accessors:
  "working_directory jd = join (job_directory jd) [''working'']
   \<and> inputs_directory jd = join (job_directory jd) [''inputs'']
   \<and> outputs_directory jd = join (job_directory jd) [''outputs'']
   \<and> configs_directory jd = join (job_directory jd) [''configs'']
   \<and> tool_files_directory jd = join (job_directory jd) [''tool_files'']
   \<and> unstructured_files_directory jd = join (job_directory jd) [''unstructured'']
   \<and> basename (working_directory jd) = ''working''
   \<and> basename (inputs_directory jd) = ''inputs''
   \<and> basename (outputs_directory jd) = ''outputs''
   \<and> basename (configs_directory jd) = ''configs''
   \<and> basename (tool_files_directory jd) = ''tool_files''
   \<and> basename (unstructured_files_directory jd) = ''unstructured''"
  by (simp add: working_directory_def inputs_directory_def outputs_directory_def
      configs_directory_def tool_files_directory_def unstructured_files_directory_def
      sub_dir_def join_def basename_join2)

subsection \<open>Reading and writing control files\<close>

lemma read_meta: "read_all (mem_os NoFault) fs0 (job_file jd0 ''meta'') = Inr [104, 105]"
  by (simp add: jd0_def job_file_def path_defs mem_defs)

lemma read_absent: "read_all (mem_os NoFault) fs0 (job_file jd0 ''pid'') = Inl (IOError ENOENT)"
  by (simp add: jd0_def job_file_def path_defs mem_defs)

text \<open>
  C7. \<open>read_file\<close> returns the full contents of the control file when it can be
  opened and read; when it cannot and a default was given, the default; when it cannot
  and no default was given, the exception of \<^verbatim>\<open>open\<close> is raised again, which for a
  file that does not exist is \<^verbatim>\<open>IOError\<close> with \<^verbatim>\<open>ENOENT\<close>.
\<close>

theorem read_file_default:
  "(read_all E s (job_file jd name) = Inr c \<longrightarrow> read_file E s jd name dflt = Inr c)
   \<and> (read_all E s (job_file jd name) = Inl e \<longrightarrow> read_file E s jd name (Some d) = Inr d)
   \<and> (read_all E s (job_file jd name) = Inl e \<longrightarrow> read_file E s jd name None = Inl e)"
  by (simp add: read_file_def)

theorem read_file_default_witness:
  "read_all (mem_os NoFault) fs0 (job_file jd0 ''meta'') = Inr [104, 105]
   \<and> read_file (mem_os NoFault) fs0 jd0 ''meta'' None = Inr [104, 105]
   \<and> read_all (mem_os NoFault) fs0 (job_file jd0 ''pid'') = Inl (IOError ENOENT)
   \<and> read_file (mem_os NoFault) fs0 jd0 ''pid'' (Some [48]) = Inr [48]
   \<and> read_file (mem_os NoFault) fs0 jd0 ''pid'' None = Inl (IOError ENOENT)"
  using read_file_default [of "mem_os NoFault" fs0 jd0 "''meta''" "[104, 105]" None]
    read_file_default [of "mem_os NoFault" fs0 jd0 "''pid''" _ _ "IOError ENOENT" "[48]"]
    read_meta read_absent
  by simp

lemma mem_read_after_write:
  "\<forall>s p b s'. write_all (mem_os f) s p b = (None, s') \<longrightarrow> read_all (mem_os f) s' p = Inr b"
  by (auto simp: mem_os_def mem_write_def mem_read_def mem_key_def Let_def split: if_splits)

lemma utf8_encode_example:
  "utf8_encode [0x34, 0x32, 0xE9, 0x20AC] = [0x34, 0x32, 0xC3, 0xA9, 0xE2, 0x82, 0xAC]"
  by (simp add: utf8_encode_def utf8_encode_char_def)

lemma write_pid:
  "write_file (mem_os NoFault) fs0 jd0 ''pid'' (Text [0x34, 0x32, 0xE9, 0x20AC])
   = (Inr ''/staging/101/pid'', fs_pid)"
  by (simp add: write_file_def utf8_encode_example jd0_def job_file_def path_defs mem_defs
      fs_pid_def Let_def)

text \<open>
  C9. On a file system where a file that was written reads back as written (the
  hypothesis on \<open>write_all\<close> and \<open>read_all\<close>), \<open>read_file\<close> of a name right after a
  \<open>write_file\<close> of text under that name that returned returns the UTF-8 encoding of
  the text, and \<open>write_file\<close> returned the job directory joined with the name: when
  the name has no separator, a path whose last component is the name and whose
  directory is the job directory (without the slashes that end it).
\<close>

theorem read_file_after_write_file:
  assumes "\<forall>s p b s'. write_all E s p b = (None, s') \<longrightarrow> read_all E s' p = Inr b"
    and "write_file E s jd name (Text t) = (Inr path, s')"
  shows "read_file E s' jd name dflt = Inr (utf8_encode t)
         \<and> path = join (job_directory jd) [name]
         \<and> (slash \<notin> set name \<longrightarrow>
               basename path = name
               \<and> dirname path = (if \<exists>c \<in> set (job_directory jd). c \<noteq> slash
                                  then rstrip_slash (job_directory jd) else job_directory jd))"
proof -
  from assms(2) have w: "write_all E s (job_file jd name) (utf8_encode t) = (None, s')"
    and p: "path = job_file jd name"
    by (auto simp: write_file_def Let_def split: prod.splits option.splits)
  from assms(1) w have "read_all E s' (job_file jd name) = Inr (utf8_encode t)" by blast
  then have "read_file E s' jd name dflt = Inr (utf8_encode t)" by (simp add: read_file_def)
  moreover have "path = join (job_directory jd) [name]" using p by (simp add: job_file_def)
  moreover have "slash \<notin> set name \<longrightarrow>
               basename path = name
               \<and> dirname path = (if \<exists>c \<in> set (job_directory jd). c \<noteq> slash
                                  then rstrip_slash (job_directory jd) else job_directory jd)"
    using p by (simp add: job_file_def join_def basename_join2 dirname_join2_plain)
  ultimately show ?thesis by blast
qed

theorem read_file_after_write_file_witness:
  "write_file (mem_os NoFault) fs0 jd0 ''pid'' (Text [0x34, 0x32, 0xE9, 0x20AC])
       = (Inr ''/staging/101/pid'', fs_pid)
   \<and> slash \<notin> set ''pid''
   \<and> read_file (mem_os NoFault) fs_pid jd0 ''pid'' None
       = Inr [0x34, 0x32, 0xC3, 0xA9, 0xE2, 0x82, 0xAC]
   \<and> ''/staging/101/pid'' = join (job_directory jd0) [''pid'']
   \<and> basename ''/staging/101/pid'' = ''pid''
   \<and> dirname ''/staging/101/pid'' = ''/staging/101''"
proof -
  have h1: "\<forall>s p b s'. write_all (mem_os NoFault) s p b = (None, s')
              \<longrightarrow> read_all (mem_os NoFault) s' p = Inr b"
    by (rule mem_read_after_write)
  have h2: "write_file (mem_os NoFault) fs0 jd0 ''pid'' (Text [0x34, 0x32, 0xE9, 0x20AC])
              = (Inr ''/staging/101/pid'', fs_pid)"
    by (rule write_pid)
  have h3: "slash \<notin> set ''pid''" by simp
  note r = read_file_after_write_file [OF h1 h2, of None]
  from r have "read_file (mem_os NoFault) fs_pid jd0 ''pid'' None
                 = Inr [0x34, 0x32, 0xC3, 0xA9, 0xE2, 0x82, 0xAC]"
    by (simp only: utf8_encode_example)
  moreover from r have "''/staging/101/pid'' = join (job_directory jd0) [''pid'']" by blast
  moreover from r h3 have "basename ''/staging/101/pid'' = ''pid''" by blast
  moreover have "dirname ''/staging/101/pid'' = ''/staging/101''" by (simp add: path_defs)
  ultimately show ?thesis using h2 h3 by blast
qed

subsection \<open>Which calls make directories\<close>

lemma posix_to_local_path_abc: "posix_to_local_path ''a/b/c.txt'' = Some (Inr ''a/b/c.txt'')"
  by (simp add: posix_to_local_path_def posix_loop.simps path_defs)

lemma get_mapped_file_abc:
  "get_mapped_file (mem_os NoFault) fs0 ''/staging/101'' ''a/b/c.txt'' True True
   = Some (Inr ''/staging/101/a/b/c.txt'', fs_ab)"
  by (simp add: get_mapped_file_def posix_to_local_path_abc verify_is_in_directory_def
      is_in_directory_def path_defs mem_defs fs_ab_def)

lemma fs_ab_neq: "fs_ab \<noteq> fs0"
proof
  assume "fs_ab = fs0"
  then have "mem_nodes fs_ab ''/staging/101/a'' = mem_nodes fs0 ''/staging/101/a''" by simp
  then show False by (simp add: fs_ab_def fs0_def)
qed

text \<open>
  C10. Without nested files \<open>get_mapped_file\<close> returns the directory joined with the
  base name and leaves the file system as it is, whatever the \<open>mkdir\<close> flag; a call
  after which the file system is in another state had nested files allowed and the
  \<open>mkdir\<close> flag set.
\<close>

theorem get_mapped_file_flat_no_mutation:
  "get_mapped_file E s directory remote_path False mkdir
     = Some (Inr (join directory [basename remote_path]), s)
   \<and> (get_mapped_file E s directory remote_path nested mkdir = Some (r, s') \<longrightarrow> s' \<noteq> s
        \<longrightarrow> nested \<and> mkdir)"
  by (auto simp: get_mapped_file_def Let_def
      split: option.splits sum.splits if_splits prod.splits)

theorem get_mapped_file_flat_no_mutation_witness:
  "get_mapped_file (mem_os NoFault) fs0 ''/staging/101'' ''a/b/c.txt'' True True
     = Some (Inr ''/staging/101/a/b/c.txt'', fs_ab) \<and> fs_ab \<noteq> fs0 \<and> True \<and> True"
  using get_mapped_file_flat_no_mutation [of "mem_os NoFault" fs0 "''/staging/101''"
      "''a/b/c.txt''" True True "Inr ''/staging/101/a/b/c.txt''" fs_ab]
    get_mapped_file_abc fs_ab_neq
  by simp

subsection \<open>Where posix_to_local_path raises or does not return\<close>

text \<open>
  On the empty path and on \<^verbatim>\<open>/\<close> the call raises \<^verbatim>\<open>TypeError\<close>; on \<^verbatim>\<open>//\<close> the
  loop never ends, since \<^verbatim>\<open>posixpath.split('//')\<close> returns \<^verbatim>\<open>//\<close> as the head.
\<close>

lemma posix_to_local_path_empty:
  "posix_to_local_path [] = Some (Inl TypeError) \<and> posix_to_local_path ''/'' = Some (Inl TypeError)"
  by (simp add: posix_to_local_path_def posix_loop.simps)

lemma split_path_slashes: "split_path ''//'' = (''//'', [])"
  by (simp add: path_defs)

lemma posix_loop_returns:
  assumes a: "posix_loop path acc = Some y"
  shows "path \<noteq> ''//''"
proof (rule posix_loop.raw_induct [where P = "\<lambda>p b y. p \<noteq> ''//''", OF _ a])
  fix f p b z
  assume ih: "\<And>p' b' y'. f p' b' = Some y' \<Longrightarrow> p' \<noteq> ''//''"
    and body: "(if p = [] \<or> p = ''/'' then Some b
                else case split_path p of (path', base) \<Rightarrow> f path' (base # b)) = Some z"
  show "p \<noteq> ''//''"
  proof
    assume "p = ''//''"
    with body have "f ''//'' ([] # b) = Some z" by (simp add: split_path_slashes)
    from ih [OF this] show False by simp
  qed
qed

lemma posix_to_local_path_diverges: "posix_to_local_path ''//'' = None"
proof -
  have "posix_loop ''//'' [] = None"
    using posix_loop_returns [of "''//''" "[]"] by (cases "posix_loop ''//'' []") auto
  then show ?thesis by (simp add: posix_to_local_path_def)
qed

subsection \<open>The loop of posix_to_local_path on relative paths\<close>

lemma split_slash_nonempty [simp]: "split_slash p \<noteq> []"
  by (induction p) (auto split: list.splits)

lemma split_slash_plain: "slash \<notin> set n \<Longrightarrow> split_slash n = [n]"
  by (induction n) auto

lemma split_slash_append: "split_slash (x @ slash # y) = split_slash x @ split_slash y"
  by (induction x) (auto split: list.splits)

lemma join_split: "join_slash (split_slash p) = p"
proof (induction p)
  case Nil show ?case by simp
next
  case (Cons c cs)
  show ?case
  proof (cases "c = slash")
    case True
    then show ?thesis using Cons by (cases "split_slash cs") auto
  next
    case False
    obtain w ws where s: "split_slash cs = w # ws" by (cases "split_slash cs") auto
    then show ?thesis using Cons False by (cases ws) auto
  qed
qed

lemma path_decompose: "p = head_raw p @ basename p"
  unfolding head_raw_def basename_def
  by (metis rev_append rev_rev_ident takeWhile_dropWhile_id)

lemma head_raw_shape: "head_raw p = [] \<or> (\<exists>h. head_raw p = h @ [slash])"
proof (cases "dropWhile (\<lambda>c. c \<noteq> slash) (rev p)")
  case Nil then show ?thesis by (simp add: head_raw_def)
next
  case (Cons x xs)
  then have "x = slash" using hd_dropWhile [of "\<lambda>c. c \<noteq> slash" "rev p"] by auto
  with Cons show ?thesis by (simp add: head_raw_def)
qed

lemma last_split_slash: "last (split_slash p) = basename p"
proof -
  from head_raw_shape [of p] show ?thesis
  proof
    assume "head_raw p = []"
    then have "p = basename p" using path_decompose [of p] by simp
    then have "slash \<notin> set p" using basename_no_slash [of p] by simp
    then show ?thesis by (simp add: split_slash_plain basename_plain)
  next
    assume "\<exists>h. head_raw p = h @ [slash]"
    then obtain h where h: "head_raw p = h @ [slash]" ..
    then have p: "p = h @ slash # basename p" using path_decompose [of p] by simp
    have "split_slash (h @ slash # basename p) = split_slash h @ [basename p]"
      by (simp add: split_slash_append split_slash_plain basename_no_slash)
    with p show ?thesis by (metis last_snoc)
  qed
qed


lemma split_slash_trailing: "split_slash (g @ replicate j slash) = split_slash g @ replicate j []"
proof (induction j)
  case 0 show ?case by simp
next
  case (Suc j)
  have "g @ replicate (Suc j) slash = (g @ replicate j slash) @ slash # []"
    by (simp add: replicate_append_same)
  then have "split_slash (g @ replicate (Suc j) slash)
             = split_slash (g @ replicate j slash) @ split_slash []"
    by (simp only: split_slash_append)
  then show ?case using Suc by (simp add: replicate_append_same)
qed

lemma rstrip_decompose: "\<exists>j. h = rstrip_slash h @ replicate j slash"
proof -
  let ?P = "\<lambda>c. c = slash"
  have "rev h = takeWhile ?P (rev h) @ dropWhile ?P (rev h)" by simp
  then have "h = rev (dropWhile ?P (rev h)) @ rev (takeWhile ?P (rev h))"
    by (metis rev_append rev_rev_ident)
  moreover have "\<forall>c \<in> set (rev (takeWhile ?P (rev h))). c = slash"
    using set_takeWhileD by fastforce
  then have "rev (takeWhile ?P (rev h)) = replicate (length (rev (takeWhile ?P (rev h)))) slash"
    by (metis replicate_eqI)
  ultimately show ?thesis unfolding rstrip_slash_def by metis
qed

lemma basename_nonempty: "g \<noteq> [] \<Longrightarrow> last g \<noteq> slash \<Longrightarrow> basename g \<noteq> []"
  by (cases g rule: rev_cases) (auto simp: basename_def)

lemma dirname_prefix: "\<exists>t. p = dirname p @ t"
proof -
  obtain j where j: "head_raw p = rstrip_slash (head_raw p) @ replicate j slash"
    using rstrip_decompose by blast
  have p: "p = head_raw p @ basename p" by (rule path_decompose)
  show ?thesis
  proof (cases "head_raw p \<noteq> [] \<and> (\<exists>c \<in> set (head_raw p). c \<noteq> slash)")
    case True
    then have "dirname p = rstrip_slash (head_raw p)"
      by (simp add: dirname_def split_path_def Let_def)
    with j p show ?thesis by (metis append.assoc)
  next
    case False
    then have "dirname p = head_raw p" by (auto simp: dirname_def split_path_def Let_def)
    with p show ?thesis by metis
  qed
qed

lemma dirname_relative: "\<not> isabs p \<Longrightarrow> \<not> isabs (dirname p)"
proof -
  assume r: "\<not> isabs p"
  obtain t where "p = dirname p @ t" using dirname_prefix by blast
  then show ?thesis using r by (cases "dirname p") (auto simp: isabs_def split: list.splits)
qed

text \<open>One round of the loop on a relative path.\<close>

lemma relative_round:
  assumes ne: "p \<noteq> []" and rel: "\<not> isabs p"
  shows "length (dirname p) < length p"
    and "kept_components p
         = (if dirname p = [] then [] else kept_components (dirname p)) @ [basename p]"
proof -
  let ?ne = "\<lambda>w::string. w \<noteq> []"
  from head_raw_shape [of p]
  have "length (dirname p) < length p \<and> kept_components p
         = (if dirname p = [] then [] else kept_components (dirname p)) @ [basename p]"
  proof
    assume h0: "head_raw p = []"
    then have d: "dirname p = []" by (simp add: dirname_def split_path_def)
    from h0 have "p = basename p" using path_decompose [of p] by simp
    then have pl: "slash \<notin> set p" using basename_no_slash [of p] by simp
    then have "kept_components p = [basename p]"
      by (simp add: kept_components_def split_slash_plain basename_plain)
    with d ne show ?thesis by simp
  next
    assume "\<exists>h. head_raw p = h @ [slash]"
    then obtain h where h: "head_raw p = h @ [slash]" ..
    then have p: "p = h @ slash # basename p" using path_decompose [of p] by simp
    have hne: "h \<noteq> []"
    proof
      assume "h = []"
      with p obtain t where "p = slash # t" by auto
      then have "isabs p" by (simp add: isabs_def)
      with rel show False by simp
    qed
    have hd: "hd h \<noteq> slash"
    proof
      assume a: "hd h = slash"
      from hne obtain t where "h = hd h # t" by (cases h) auto
      with a p obtain u where "p = slash # u" by (metis append_Cons)
      then have "isabs p" by (simp add: isabs_def)
      with rel show False by simp
    qed
    then have ex: "\<exists>c \<in> set h. c \<noteq> slash" using hne by (metis hd_in_set)
    then have d: "dirname p = rstrip_slash h"
      using h by (auto simp: dirname_def split_path_def Let_def rstrip_snoc_slash)
    let ?g = "rstrip_slash h"
    have gne: "?g \<noteq> []" using ex by (rule rstrip_nonempty)
    have gl: "last ?g \<noteq> slash" using rstrip_shape [of h] gne by simp
    obtain j where j: "h = ?g @ replicate j slash" using rstrip_decompose by blast
    have "length ?g \<le> length h" using j by (metis length_append le_add1)
    then have len: "length (dirname p) < length p" using d p
      by (metis length_append length_Cons less_add_Suc1 le_less_trans add_Suc_right not_less_eq
          less_Suc_eq_le trans_less_add1)
    have sp: "split_slash p = split_slash h @ [basename p]"
      using p by (metis split_slash_append split_slash_plain basename_no_slash)
    have sh: "split_slash h = split_slash ?g @ replicate j []"
      using j split_slash_trailing by metis
    have lg: "last (split_slash ?g) \<noteq> []"
      using gne gl by (simp add: last_split_slash basename_nonempty)
    have "filter ?ne (split_slash h) = filter ?ne (split_slash ?g)"
      by (simp add: sh)
    also have "\<dots> = filter ?ne (butlast (split_slash ?g)) @ filter ?ne [last (split_slash ?g)]"
      by (metis append_butlast_last_id filter_append split_slash_nonempty)
    also have "\<dots> = kept_components ?g" using lg by (simp add: kept_components_def)
    finally have "kept_components p = kept_components ?g @ [basename p]"
      by (simp add: kept_components_def sp)
    with len d gne show ?thesis by simp
  qed
  then show "length (dirname p) < length p"
    and "kept_components p
         = (if dirname p = [] then [] else kept_components (dirname p)) @ [basename p]"
    by blast+
qed

lemma posix_loop_relative:
  "\<not> isabs p \<Longrightarrow>
   posix_loop p acc = Some ((if p = [] then [] else kept_components p) @ acc)"
proof (induction "length p" arbitrary: p acc rule: less_induct)
  case less
  show ?case
  proof (cases "p = []")
    case True
    then show ?thesis by (simp add: posix_loop.simps)
  next
    case False
    have nr: "p \<noteq> ''/''" using less.prems by (auto simp: isabs_def)
    have "posix_loop p acc = posix_loop (dirname p) (basename p # acc)"
      using False nr by (subst posix_loop.simps) (simp add: split_path_def dirname_def Let_def)
    also have "\<dots> = Some ((if dirname p = [] then [] else kept_components (dirname p))
                       @ basename p # acc)"
      using less.hyps [OF relative_round(1) [OF False less.prems] dirname_relative [OF less.prems]]
      by simp
    also have "\<dots> = Some (kept_components p @ acc)"
      using relative_round(2) [OF False less.prems] by simp
    finally show ?thesis using False by simp
  qed
qed


lemma split_slash_no_slash: "w \<in> set (split_slash p) \<Longrightarrow> slash \<notin> set w"
proof (induction p arbitrary: w)
  case Nil then show ?case by simp
next
  case (Cons c cs)
  obtain v vs where s: "split_slash cs = v # vs" by (cases "split_slash cs") auto
  show ?case
  proof (cases "c = slash")
    case True
    with Cons show ?thesis by auto
  next
    case False
    with Cons.prems s have "w = c # v \<or> w \<in> set vs" by auto
    then show ?thesis using Cons.IH s False by auto
  qed
qed

lemma join_slash_snoc: "us \<noteq> [] \<Longrightarrow> join_slash (us @ [b]) = join_slash us @ slash # b"
  by (induction us rule: join_slash.induct) auto

lemma last_join_slash:
  "us \<noteq> [] \<Longrightarrow> last us \<noteq> [] \<Longrightarrow> join_slash us \<noteq> [] \<and> last (join_slash us) = last (last us)"
  by (induction us rule: join_slash.induct) auto

lemma join_components:
  "ws \<noteq> [] \<Longrightarrow> \<forall>w \<in> set ws. slash \<notin> set w \<Longrightarrow> \<forall>w \<in> set (butlast ws). w \<noteq> [] \<Longrightarrow>
   foldl join2 (hd ws) (tl ws) = join_slash ws"
proof (induction ws rule: rev_induct)
  case Nil then show ?case by simp
next
  case (snoc b us)
  show ?case
  proof (cases "us = []")
    case True then show ?thesis by simp
  next
    case False
    have ih: "foldl join2 (hd us) (tl us) = join_slash us"
      using snoc False by (auto dest: in_set_butlastD)
    have lu: "last us \<noteq> []" using snoc.prems(3) False by simp
    have ls: "slash \<notin> set (last us)" using snoc.prems(2) False by simp
    from last_join_slash [OF False lu]
    have jn: "join_slash us \<noteq> []" and jl: "last (join_slash us) = last (last us)" by auto
    have "last (last us) \<in> set (last us)" using lu by simp
    with ls jl have nl: "last (join_slash us) \<noteq> slash" by metis
    have nb: "\<not> isabs b" using snoc.prems(2) by (simp add: plain_not_abs)
    have "foldl join2 (hd (us @ [b])) (tl (us @ [b])) = join2 (foldl join2 (hd us) (tl us)) b"
      using False by simp
    also have "\<dots> = join_slash us @ slash # b" using ih jn nl nb by (simp add: join2_def)
    finally show ?thesis using False by (simp add: join_slash_snoc)
  qed
qed

lemma kept_components_props:
  "kept_components p \<noteq> []"
  "\<forall>w \<in> set (kept_components p). slash \<notin> set w"
  "\<forall>w \<in> set (butlast (kept_components p)). w \<noteq> []"
proof -
  show "kept_components p \<noteq> []" by (simp add: kept_components_def)
  have "set (butlast (split_slash p)) \<subseteq> set (split_slash p)" by (auto dest: in_set_butlastD)
  moreover have "last (split_slash p) \<in> set (split_slash p)" by simp
  ultimately show "\<forall>w \<in> set (kept_components p). slash \<notin> set w"
    using split_slash_no_slash [of _ p] by (auto simp: kept_components_def)
  show "\<forall>w \<in> set (butlast (kept_components p)). w \<noteq> []"
    by (simp add: kept_components_def butlast_append)
qed

lemma posix_to_local_path_relative:
  assumes "p \<noteq> []" and "\<not> isabs p"
  shows "posix_to_local_path p = Some (Inr (join_slash (kept_components p)))"
proof -
  have l: "posix_loop p [] = Some (kept_components p)"
    using posix_loop_relative [OF assms(2), of "[]"] assms(1) by simp
  obtain a ws where k: "kept_components p = a # ws"
    using kept_components_props(1) [of p] by (cases "kept_components p") auto
  have "join a ws = join_slash (kept_components p)"
    using join_components [OF kept_components_props, of p] k by (simp add: join_def)
  with l k show ?thesis by (simp add: posix_to_local_path_def)
qed

lemma kept_all:
  "[] \<notin> set (butlast (split_slash p)) \<Longrightarrow> join_slash (kept_components p) = p"
proof -
  assume "[] \<notin> set (butlast (split_slash p))"
  then have "filter (\<lambda>w. w \<noteq> []) (butlast (split_slash p)) = butlast (split_slash p)"
    by (auto simp: filter_id_conv)
  then have "kept_components p = split_slash p" by (simp add: kept_components_def)
  then show ?thesis by (simp add: join_split)
qed



subsection \<open>Normalising a path joined with normal names\<close>

lemma commonprefix_append: "commonprefix (x @ y) x = x"
  by (induction x) auto

lemma join_slash_append:
  "C \<noteq> [] \<Longrightarrow> ws \<noteq> [] \<Longrightarrow> join_slash (C @ ws) = join_slash C @ slash # join_slash ws"
proof (induction C rule: join_slash.induct)
  case 1 then show ?case by simp
next
  case (2 w) then show ?case by (cases ws) auto
next
  case (3 w v vs) then show ?case by simp
qed

lemma foldl_norm_step_normal:
  "\<forall>w \<in> set ws. normal_name w \<Longrightarrow> foldl (norm_step k) C ws = C @ ws"
  by (induction ws arbitrary: C) (auto simp: norm_step_def normal_name_def)

lemma isabs_simps:
  "\<not> isabs []" "isabs (c # t) = (c = slash)"
  "isabs (x @ y) = (if x = [] then isabs y else isabs x)"
  by (cases x; simp add: isabs_def)+

lemma join2_assoc:
  assumes "\<not> isabs root" and "\<not> isabs rel"
  shows "join2 cwd (join2 root rel) = join2 (join2 cwd root) rel"
proof (cases "root = []")
  case True
  then show ?thesis using assms by (simp add: join2_def isabs_simps)
next
  case False
  have "\<not> isabs (join2 root rel)" using assms False by (simp add: join2_def isabs_simps)
  moreover have "join2 root rel \<noteq> []" using False assms by (simp add: join2_def)
  ultimately show ?thesis using assms False by (simp add: join2_def isabs_simps)
qed

lemma initial_slashes_join2:
  "isabs Q \<Longrightarrow> \<not> isabs rel \<Longrightarrow> rel \<noteq> [] \<Longrightarrow> initial_slashes (join2 Q rel) = initial_slashes Q"
proof -
  assume q: "isabs Q" and r: "\<not> isabs rel" and ne: "rel \<noteq> []"
  from q obtain t where Q: "Q = slash # t" by (cases Q) (auto simp: isabs_def)
  from r ne obtain c u where R: "rel = c # u" "c \<noteq> slash" by (cases rel) (auto simp: isabs_def)
  show ?thesis
  proof (cases t)
    case Nil
    with Q R show ?thesis by (simp add: join2_def initial_slashes_def isabs_def)
  next
    case (Cons c2 t2)
    show ?thesis
    proof (cases t2)
      case Nil
      with Q R Cons show ?thesis by (simp add: join2_def initial_slashes_def isabs_def)
    next
      case (Cons c3 t3)
      with Q R \<open>t = c2 # t2\<close> show ?thesis
        by (simp add: join2_def initial_slashes_def isabs_def)
    qed
  qed
qed


lemma normal_relative:
  assumes "\<forall>w \<in> set (split_slash rel). normal_name w"
  shows "rel \<noteq> []" and "\<not> isabs rel"
proof -
  show "rel \<noteq> []"
  proof
    assume "rel = []"
    then have "[] \<in> set (split_slash rel)" by simp
    with assms have "normal_name []" by blast
    then show False by (simp add: normal_name_def)
  qed
  show "\<not> isabs rel"
  proof
    assume "isabs rel"
    then obtain t where "rel = slash # t" by (cases rel) (auto simp: isabs_def)
    then have "[] \<in> set (split_slash rel)" by simp
    with assms have "normal_name []" by blast
    then show False by (simp add: normal_name_def)
  qed
qed

lemma normpath_join2:
  assumes q: "isabs Q" and n: "\<forall>w \<in> set (split_slash rel). normal_name w"
  shows "\<exists>X. normpath (join2 Q rel) = normpath Q @ X"
proof -
  let ?k = "initial_slashes Q"
  let ?ws = "split_slash rel"
  have rne: "rel \<noteq> []" and rrel: "\<not> isabs rel" using normal_relative [OF n] by auto
  have qne: "Q \<noteq> []" using q by (auto simp: isabs_def)
  have k: "initial_slashes (join2 Q rel) = ?k" using q rrel rne by (rule initial_slashes_join2)
  have kpos: "?k \<noteq> 0" using q by (simp add: initial_slashes_def)
  let ?C = "foldl (norm_step ?k) [] (split_slash Q)"
  have fold: "foldl (norm_step ?k) [] (split_slash (join2 Q rel)) = ?C @ ?ws"
  proof (cases "last Q = slash")
    case True
    with qne obtain Q0 where Q0: "Q = Q0 @ [slash]" by (metis append_butlast_last_id)
    have "join2 Q rel = Q0 @ slash # rel" using Q0 rrel by (simp add: join2_def)
    then have a: "split_slash (join2 Q rel) = split_slash Q0 @ ?ws"
      by (simp add: split_slash_append)
    have "Q = Q0 @ slash # []" using Q0 by simp
    then have "split_slash Q = split_slash Q0 @ split_slash []" by (simp only: split_slash_append)
    then have b: "?C = foldl (norm_step ?k) [] (split_slash Q0)" by (simp add: norm_step_def)
    show ?thesis using a b n by (simp add: foldl_norm_step_normal)
  next
    case False
    then have "join2 Q rel = Q @ slash # rel" using qne rrel by (simp add: join2_def)
    then have "split_slash (join2 Q rel) = split_slash Q @ ?ws" by (simp add: split_slash_append)
    then show ?thesis using n by (simp add: foldl_norm_step_normal)
  qed
  have jne: "join2 Q rel \<noteq> []" using qne rrel by (simp add: join2_def)
  have nq: "normpath Q = replicate ?k slash @ join_slash ?C"
    using qne kpos by (simp add: normpath_def Let_def)
  have nj: "normpath (join2 Q rel) = replicate ?k slash @ join_slash (?C @ ?ws)"
    using jne kpos k fold by (simp add: normpath_def Let_def)
  show ?thesis
  proof (cases "?C = []")
    case True
    then show ?thesis using nq nj by simp
  next
    case False
    then have "join_slash (?C @ ?ws) = join_slash ?C @ slash # join_slash ?ws"
      by (simp add: join_slash_append)
    then show ?thesis using nq nj by simp
  qed
qed

lemma nested_contained:
  assumes c: "isabs cwd" and n: "\<forall>w \<in> set (split_slash rel). normal_name w"
  shows "is_in_directory cwd (join2 root rel) root"
proof -
  have rrel: "\<not> isabs rel" and rne: "rel \<noteq> []" using normal_relative [OF n] by auto
  let ?Q = "if isabs root then root else join2 cwd root"
  have cne: "cwd \<noteq> []" using c by (auto simp: isabs_def)
  have q: "isabs ?Q" using c cne by (simp add: join2_def isabs_simps)
  have "(if isabs (join2 root rel) then join2 root rel else join2 cwd (join2 root rel))
        = join2 ?Q rel"
  proof (cases "isabs root")
    case True
    then have "root \<noteq> []" by (auto simp: isabs_def)
    then have "isabs (join2 root rel)" using True rrel by (simp add: join2_def isabs_simps)
    then show ?thesis using True by simp
  next
    case False
    then have "\<not> isabs (join2 root rel)" using rrel by (simp add: join2_def isabs_simps)
    then show ?thesis using False rrel by (simp add: join2_assoc)
  qed
  then have "abspath cwd (join2 root rel) = normpath (join2 ?Q rel)" by (simp add: abspath_def)
  moreover obtain X where "normpath (join2 ?Q rel) = normpath ?Q @ X"
    using normpath_join2 [OF q n] by blast
  moreover have "abspath cwd root = normpath ?Q" by (simp add: abspath_def)
  ultimately show ?thesis by (simp add: is_in_directory_def commonprefix_append)
qed


lemma abc_normal: "\<forall>w \<in> set (split_slash ''a/b/c.txt''). normal_name w"
  by (simp add: normal_name_def)

lemma dirname_abc: "dirname (join2 root ''a/b/c.txt'') = join2 root ''a/b''"
proof -
  let ?Z = "join2 root ''a/b''"
  have j: "join2 root ''a/b/c.txt'' = ?Z @ slash # ''c.txt''"
    by (simp add: join2_def isabs_def)
  have z: "?Z \<noteq> []" and l: "last ?Z \<noteq> slash" by (simp_all add: join2_def isabs_def)
  then have ex: "\<exists>c \<in> set ?Z. c \<noteq> slash" by (metis last_in_set)
  have "dirname (?Z @ slash # ''c.txt'') = rstrip_slash ?Z"
    using dirname_append_slash [of "''c.txt''" ?Z] ex by simp
  then show ?thesis using j z l by (simp add: rstrip_id)
qed

lemma get_mapped_file_abc_any_root:
  assumes "isabs (getcwd E s)"
  shows "get_mapped_file E s root ''a/b/c.txt'' True True =
     (if path_exists E s (join root [''a/b'']) then Some (Inr (join root [''a/b/c.txt'']), s)
      else (case makedirs E s (join root [''a/b'']) of
              (Some e, s') \<Rightarrow> Some (Inl e, s')
            | (None, s') \<Rightarrow> Some (Inr (join root [''a/b/c.txt'']), s')))"
proof -
  have "is_in_directory (getcwd E s) (join2 root ''a/b/c.txt'') root"
    using assms abc_normal by (rule nested_contained)
  then have v: "verify_is_in_directory (getcwd E s) (join root [''a/b/c.txt'']) root = None"
    by (simp add: verify_is_in_directory_def join_def)
  have d: "dirname (join root [''a/b/c.txt'']) = join root [''a/b'']"
    by (simp add: join_def dirname_abc)
  show ?thesis
    by (simp add: get_mapped_file_def posix_to_local_path_abc v d
        split: prod.splits option.splits)
qed

lemma kept_nonempty:
  "filter (\<lambda>w. w \<noteq> []) (kept_components p) = filter (\<lambda>w. w \<noteq> []) (split_slash p)"
proof -
  have "split_slash p = butlast (split_slash p) @ [last (split_slash p)]" by simp
  then have "filter (\<lambda>w. w \<noteq> []) (split_slash p)
      = filter (\<lambda>w. w \<noteq> []) (butlast (split_slash p)) @ filter (\<lambda>w. w \<noteq> []) [last (split_slash p)]"
    by (metis filter_append)
  then show ?thesis by (simp add: kept_components_def)
qed

lemma cwd_fs0: "isabs (getcwd (mem_os NoFault) fs0)"
  by (simp add: mem_defs isabs_def)

lemma kept_example: "join_slash (kept_components ''x//../y'') = ''x/../y''"
  by (simp add: kept_components_def)

lemma spec_example: "spec_posix_to_local_path ''x/../y'' = ''x/../y''"
  by (simp add: spec_posix_to_local_path_def)

lemma no_empty_example: "[] \<notin> set (butlast (split_slash ''x/../y''))"
  by simp

lemma mkdir_example:
  "\<not> path_exists (mem_os NoFault) fs0 (join ''/staging/101'' [''a/b''])
   \<and> makedirs (mem_os NoFault) fs0 (join ''/staging/101'' [''a/b'']) = (None, fs_ab)
   \<and> join ''/staging/101'' [''a/b/c.txt''] = ''/staging/101/a/b/c.txt''"
  by (simp add: path_defs mem_defs fs_ab_def)

text \<open>
  C5 as stated: the translation of a relative remote path in nested mode splits it on
  \<^verbatim>\<open>/\<close> and joins the components again, every component kept, nothing collapsed or
  normalised. On \<^verbatim>\<open>a//b\<close> the loop over \<^verbatim>\<open>posixpath.split\<close> drops the empty
  component between the two slashes and returns \<^verbatim>\<open>a/b\<close>, where splitting and
  joining gives \<^verbatim>\<open>a//b\<close> back.
\<close>

theorem nested_translation_counterexample:
  "posix_to_local_path ''a//b'' = Some (Inr ''a/b'')
   \<and> spec_posix_to_local_path ''a//b'' = ''a//b''
   \<and> posix_to_local_path ''a//b'' \<noteq> Some (Inr (spec_posix_to_local_path ''a//b''))"
  by (simp add: posix_to_local_path_def posix_loop.simps spec_posix_to_local_path_def path_defs)

text \<open>
  C5 as amended: for every remote path that is relative and not empty, the translation
  returns the components between the slashes joined with the separator again, the
  empty components before the last slash left out and every other component kept in
  its place and as it is, \<^verbatim>\<open>.\<close> and \<^verbatim>\<open>..\<close> included; for a path with no empty
  component before its last slash it is what splitting and joining gives. And when the
  current directory is absolute, \<open>get_mapped_file\<close> with nested files and \<open>mkdir\<close>,
  for the remote path \<^verbatim>\<open>a/b/c.txt\<close> and any directory \<open>root\<close>, returns \<open>root\<close>
  joined with \<^verbatim>\<open>a/b/c.txt\<close>, after \<^verbatim>\<open>os.makedirs\<close> of \<open>root\<close> joined with
  \<^verbatim>\<open>a/b\<close> when that directory did not exist (an exception of \<^verbatim>\<open>makedirs\<close> is
  raised on).
\<close>

theorem nested_translation:
  assumes "p \<noteq> []" and "\<not> isabs p" and "isabs (getcwd E s)"
  shows "posix_to_local_path p = Some (Inr (join_slash (kept_components p)))
    \<and> filter (\<lambda>w. w \<noteq> []) (kept_components p) = filter (\<lambda>w. w \<noteq> []) (split_slash p)
    \<and> ([] \<notin> set (butlast (split_slash p)) \<longrightarrow>
          posix_to_local_path p = Some (Inr (spec_posix_to_local_path p)))
    \<and> get_mapped_file E s root ''a/b/c.txt'' True True =
         (if path_exists E s (join root [''a/b''])
          then Some (Inr (join root [''a/b/c.txt'']), s)
          else (case makedirs E s (join root [''a/b'']) of
                  (Some e, s') \<Rightarrow> Some (Inl e, s')
                | (None, s') \<Rightarrow> Some (Inr (join root [''a/b/c.txt'']), s')))"
proof -
  have a: "posix_to_local_path p = Some (Inr (join_slash (kept_components p)))"
    using assms(1,2) by (rule posix_to_local_path_relative)
  have b: "[] \<notin> set (butlast (split_slash p)) \<longrightarrow>
          posix_to_local_path p = Some (Inr (spec_posix_to_local_path p))"
    using a by (simp add: kept_all spec_posix_to_local_path_def join_split)
  show ?thesis using a b kept_nonempty get_mapped_file_abc_any_root [OF assms(3)] by blast
qed

theorem nested_translation_witness:
  "''x//../y'' \<noteq> [] \<and> \<not> isabs ''x//../y'' \<and> isabs (getcwd (mem_os NoFault) fs0)
   \<and> posix_to_local_path ''x//../y'' = Some (Inr ''x/../y'')
   \<and> [] \<notin> set (butlast (split_slash ''x/../y''))
   \<and> posix_to_local_path ''x/../y'' = Some (Inr ''x/../y'')
   \<and> get_mapped_file (mem_os NoFault) fs0 ''/staging/101'' ''a/b/c.txt'' True True
       = Some (Inr ''/staging/101/a/b/c.txt'', fs_ab)"
proof -
  have h1: "''x//../y'' \<noteq> []" and h2: "\<not> isabs ''x//../y''"
    and h1': "''x/../y'' \<noteq> []" and h2': "\<not> isabs ''x/../y''"
    by (simp_all add: isabs_def)
  note a = nested_translation [OF h1 h2 cwd_fs0, of "''/staging/101''"]
  note b = nested_translation [OF h1' h2' cwd_fs0, of "''/staging/101''"]
  from a have r1: "posix_to_local_path ''x//../y'' = Some (Inr ''x/../y'')"
    by (simp only: kept_example)
  from b no_empty_example
  have "posix_to_local_path ''x/../y'' = Some (Inr (spec_posix_to_local_path ''x/../y''))"
    by blast
  then have r2: "posix_to_local_path ''x/../y'' = Some (Inr ''x/../y'')"
    by (simp only: spec_example)
  from a have "get_mapped_file (mem_os NoFault) fs0 ''/staging/101'' ''a/b/c.txt'' True True =
         (if path_exists (mem_os NoFault) fs0 (join ''/staging/101'' [''a/b''])
          then Some (Inr (join ''/staging/101'' [''a/b/c.txt'']), fs0)
          else (case makedirs (mem_os NoFault) fs0 (join ''/staging/101'' [''a/b'']) of
                  (Some e, s') \<Rightarrow> Some (Inl e, s')
                | (None, s') \<Rightarrow> Some (Inr (join ''/staging/101'' [''a/b/c.txt'']), s')))"
    by blast
  then have r3: "get_mapped_file (mem_os NoFault) fs0 ''/staging/101'' ''a/b/c.txt'' True True
       = Some (Inr ''/staging/101/a/b/c.txt'', fs_ab)"
    using mkdir_example by simp
  from h1 h2 cwd_fs0 r1 no_empty_example r2 r3 show ?thesis by blast
qed

subsection \<open>The two steps of atomicish_move\<close>

lemma separate_neq: "separate cwd p q \<Longrightarrow> abspath cwd p \<noteq> abspath cwd q"
  by (auto simp: separate_def inside_def Let_def)

lemma atomicish_move_steps:
  "atomicish_move E s source destination sfx =
     (case move E s source (temp_destination destination sfx) of
        (Some e, s1) \<Rightarrow> (Some e, s1)
      | (None, s1) \<Rightarrow> rename E s1 (temp_destination destination sfx) destination)"
  by (simp add: atomicish_move_def Let_def)

lemma mem_rename_nodes:
  "mem_rename s a b = (r, s1) \<Longrightarrow> k \<noteq> mem_key s a \<Longrightarrow> k \<noteq> mem_key s b \<Longrightarrow>
   mem_cwd s1 = mem_cwd s \<and> mem_nodes s1 k = mem_nodes s k"
  by (auto simp: mem_rename_def Let_def split: option.splits node.splits if_splits)

lemma mem_write_nodes:
  "mem_write s b c = (r, s1) \<Longrightarrow> k \<noteq> mem_key s b \<Longrightarrow>
   mem_cwd s1 = mem_cwd s \<and> mem_nodes s1 k = mem_nodes s k"
  by (auto simp: mem_write_def Let_def split: if_splits)

lemma mem_move_nodes:
  "mem_move f s a b = (r, s1) \<Longrightarrow> k \<noteq> mem_key s a \<Longrightarrow> k \<noteq> mem_key s b \<Longrightarrow>
   mem_cwd s1 = mem_cwd s \<and> mem_nodes s1 k = mem_nodes s k"
  by (cases f) (auto simp: mem_move_def dest: mem_rename_nodes mem_write_nodes
      split: sum.splits prod.splits option.splits)

lemma mem_move_frame:
  "\<forall>s a b r s1 p. move (mem_os f) s a b = (r, s1) \<longrightarrow> separate (getcwd (mem_os f) s) p a
     \<longrightarrow> separate (getcwd (mem_os f) s) p b
     \<longrightarrow> observe (mem_os f) s1 p = observe (mem_os f) s p"
proof (intro allI impI)
  fix s a b r s1 p
  assume m: "move (mem_os f) s a b = (r, s1)"
    and sa: "separate (getcwd (mem_os f) s) p a" and sb: "separate (getcwd (mem_os f) s) p b"
  from m have m': "mem_move f s a b = (r, s1)" by (simp add: mem_os_def)
  from sa have ka: "mem_key s p \<noteq> mem_key s a"
    using separate_neq by (simp add: mem_os_def mem_key_def)
  from sb have kb: "mem_key s p \<noteq> mem_key s b"
    using separate_neq by (simp add: mem_os_def mem_key_def)
  from mem_move_nodes [OF m' ka kb]
  have "mem_cwd s1 = mem_cwd s" and "mem_nodes s1 (mem_key s p) = mem_nodes s (mem_key s p)"
    by auto
  then show "observe (mem_os f) s1 p = observe (mem_os f) s p"
    by (simp add: observe_def mem_os_def mem_exists_def mem_read_def mem_key_def)
qed

lemma mem_rename_fails_clean:
  "\<forall>s a b e s1. rename (mem_os f) s a b = (Some e, s1) \<longrightarrow> s1 = s"
  by (auto simp: mem_os_def mem_rename_def Let_def split: option.splits node.splits if_splits)

lemmas fs_defs = fs_out_def fs_partial_def fs_moved_def

lemma temp_data: "temp_destination ''/staging/101/outputs/data'' ''_TMP'' = ''/staging/101/outputs/data_TMP''"
  by (simp add: temp_destination_def path_defs)

lemma temp_outputs: "temp_destination ''/staging/101/outputs'' ''_TMP'' = ''/staging/101/outputs_TMP''"
  by (simp add: temp_destination_def path_defs)

lemma move_partial:
  "move (mem_os (CopyFails 2)) fs_out ''/staging/101/result'' ''/staging/101/outputs/data_TMP''
   = (Some (IOError ENOSPC), fs_partial)"
  by (simp add: fs_defs path_defs mem_defs Let_def)

lemma move_whole:
  "move (mem_os NoFault) fs_out ''/staging/101/result'' ''/staging/101/outputs_TMP''
   = (None, fs_moved)"
  by (simp add: fs_defs path_defs mem_defs Let_def)

lemma rename_onto_dir:
  "rename (mem_os NoFault) fs_moved ''/staging/101/outputs_TMP'' ''/staging/101/outputs''
   = (Some (OSError EISDIR), fs_moved)"
  by (simp add: fs_defs path_defs mem_defs Let_def)

lemma sep_data:
  "separate (getcwd (mem_os f) fs_out) ''/staging/101/outputs/data'' ''/staging/101/result''
   \<and> separate (getcwd (mem_os f) fs_out) ''/staging/101/outputs/data'' ''/staging/101/outputs/data_TMP''"
  by (simp add: separate_def inside_def fs_defs path_defs mem_defs Let_def)

lemma sep_outputs:
  "separate (getcwd (mem_os f) fs_out) ''/staging/101/outputs'' ''/staging/101/result''
   \<and> separate (getcwd (mem_os f) fs_out) ''/staging/101/outputs'' ''/staging/101/outputs_TMP''"
  by (simp add: separate_def inside_def fs_defs path_defs mem_defs Let_def)

subsection \<open>The temporary name is separate from the destination\<close>

lemma norm_step_empty: "foldl (norm_step k) C (replicate j []) = C"
  by (induction j) (auto simp: norm_step_def)

lemma join_slash_snoc_nonempty: "m \<noteq> [] \<Longrightarrow> join_slash (C @ [m]) \<noteq> []"
proof (cases "C = []")
  case True
  assume "m \<noteq> []"
  with True show ?thesis by simp
next
  case False
  then have "join_slash (C @ [m]) = join_slash C @ slash # m" by (rule join_slash_snoc)
  then show ?thesis by simp
qed

lemma norm_step_normal: "normal_name m \<Longrightarrow> norm_step k C m = C @ [m]"
  by (simp add: norm_step_def normal_name_def)

text \<open>The normal form of an absolute path that ends with a normal name after a slash.\<close>

lemma normpath_snoc:
  assumes m: "normal_name m" and ms: "slash \<notin> set m"
  shows "normpath (A0 @ slash # m) =
           replicate (initial_slashes (A0 @ slash # m)) slash
           @ join_slash (foldl (norm_step (initial_slashes (A0 @ slash # m))) [] (split_slash A0) @ [m])"
proof -
  let ?k = "initial_slashes (A0 @ slash # m)"
  have "split_slash (A0 @ slash # m) = split_slash A0 @ [m]"
    using ms by (simp add: split_slash_append split_slash_plain)
  then have f: "foldl (norm_step ?k) [] (split_slash (A0 @ slash # m))
                = foldl (norm_step ?k) [] (split_slash A0) @ [m]"
    using m by (simp add: norm_step_normal)
  have "m \<noteq> []" using m by (simp add: normal_name_def)
  then have "join_slash (foldl (norm_step ?k) [] (split_slash A0) @ [m]) \<noteq> []"
    by (rule join_slash_snoc_nonempty)
  then show ?thesis using f by (simp add: normpath_def Let_def)
qed

lemma initial_slashes_cases:
  "initial_slashes p = (case p of
      [] \<Rightarrow> 0
    | a # q \<Rightarrow> if a \<noteq> slash then 0 else
        (case q of [] \<Rightarrow> 1
         | b # r \<Rightarrow> if b \<noteq> slash then 1 else
            (case r of [] \<Rightarrow> 2 | c # _ \<Rightarrow> if c = slash then 1 else 2)))"
  by (auto simp: initial_slashes_def isabs_def split: list.splits)

text \<open>The count of initial slashes is decided before the first character that is no slash.\<close>

lemma initial_slashes_decided:
  "c \<noteq> slash \<Longrightarrow>
   initial_slashes (replicate i slash @ c # t) = initial_slashes (replicate i slash @ c # t')"
proof -
  assume c: "c \<noteq> slash"
  have "i = 0 \<or> i = Suc 0 \<or> i = Suc (Suc 0) \<or> (\<exists>j. i = Suc (Suc (Suc j)))" by presburger
  then show ?thesis using c by (auto simp: initial_slashes_cases)
qed


lemma slashes_then_rest: "\<exists>i r. U = replicate i slash @ r \<and> (r = [] \<or> hd r \<noteq> slash)"
proof -
  let ?P = "\<lambda>c. c = slash"
  have "U = takeWhile ?P U @ dropWhile ?P U" by simp
  moreover have "\<forall>c \<in> set (takeWhile ?P U). c = slash" using set_takeWhileD by fastforce
  then have "takeWhile ?P U = replicate (length (takeWhile ?P U)) slash"
    by (metis replicate_eqI)
  moreover have "dropWhile ?P U = [] \<or> hd (dropWhile ?P U) \<noteq> slash"
    using hd_dropWhile [of ?P U] by blast
  ultimately show ?thesis by metis
qed

lemma initial_slashes_prefix:
  assumes "c \<noteq> slash"
  shows "initial_slashes (U @ c # t) = initial_slashes (U @ c # t')"
proof -
  obtain i r where U: "U = replicate i slash @ r" and r: "r = [] \<or> hd r \<noteq> slash"
    using slashes_then_rest by blast
  show ?thesis
  proof (cases r)
    case Nil
    with U assms show ?thesis by (simp add: initial_slashes_decided)
  next
    case (Cons c0 r0)
    with r have "c0 \<noteq> slash" by simp
    then have "initial_slashes (replicate i slash @ c0 # (r0 @ c # t))
               = initial_slashes (replicate i slash @ c0 # (r0 @ c # t'))"
      by (rule initial_slashes_decided)
    with U Cons show ?thesis by simp
  qed
qed

lemma inside_suffix:
  assumes "X \<noteq> []" and "last X \<noteq> slash" and "sfx \<noteq> []" and "slash \<notin> set sfx"
  shows "\<not> inside X (X @ sfx) \<and> \<not> inside (X @ sfx) X"
proof -
  obtain c u where sfx: "sfx = c # u" and c: "c \<noteq> slash"
    using assms(3,4) by (cases sfx) auto
  have a1: "X \<noteq> X @ sfx" using assms(3) by simp
  have a2: "X @ sfx \<noteq> replicate (length (X @ sfx)) slash"
  proof
    assume "X @ sfx = replicate (length (X @ sfx)) slash"
    then have "set (X @ sfx) \<subseteq> {slash}" by (metis set_replicate_conv_if empty_subsetI subset_refl)
    with sfx c show False by auto
  qed
  have "length (take (Suc (length (X @ sfx))) X) \<noteq> length ((X @ sfx) @ ''/'')" by simp
  then have a3: "take (Suc (length (X @ sfx))) X \<noteq> (X @ sfx) @ ''/''" by metis
  have b2: "X \<noteq> replicate (length X) slash"
  proof
    assume e: "X = replicate (length X) slash"
    have "last X \<in> set X" using assms(1) by simp
    moreover have "set X \<subseteq> {slash}" using e by (metis set_replicate_conv_if empty_subsetI subset_refl)
    ultimately show False using assms(2) by auto
  qed
  have "take (Suc (length X)) (X @ sfx) = X @ [c]" using sfx by simp
  then have b3: "take (Suc (length X)) (X @ sfx) \<noteq> X @ ''/''" using c by simp
  show ?thesis using a1 a2 a3 b2 b3 unfolding inside_def by metis
qed


lemma join_slash_snoc_append: "join_slash (C @ [m @ x]) = join_slash (C @ [m]) @ x"
proof (cases "C = []")
  case True then show ?thesis by simp
next
  case False
  then show ?thesis using join_slash_snoc [OF False] by simp
qed

lemma normal_name_append:
  assumes "normal_name n" and "x \<noteq> []"
  shows "normal_name (n @ x)"
proof -
  obtain a n' where n: "n = a # n'" using assms(1) by (cases n) (auto simp: normal_name_def)
  obtain b x' where x: "x = b # x'" using assms(2) by (cases x) auto
  have "n @ x \<noteq> ''..''"
  proof
    assume "n @ x = ''..''"
    with n x have "n = ''.''" by (cases n') auto
    with assms(1) show False by (simp add: normal_name_def)
  qed
  moreover have "n @ x \<noteq> ''.''" using n x by simp
  ultimately show ?thesis using n by (simp add: normal_name_def)
qed

lemma normpath_temp_shape:
  assumes n: "normal_name n" and ns: "slash \<notin> set n"
    and x: "x \<noteq> []" and xs: "slash \<notin> set x"
    and k: "initial_slashes ((W @ replicate j slash) @ slash # n)
            = initial_slashes (W @ slash # (n @ x))"
  shows "normpath (W @ slash # (n @ x)) = normpath ((W @ replicate j slash) @ slash # n) @ x"
    and "normpath ((W @ replicate j slash) @ slash # n) \<noteq> []"
    and "last (normpath ((W @ replicate j slash) @ slash # n)) \<noteq> slash"
proof -
  let ?k = "initial_slashes (W @ slash # (n @ x))"
  let ?C = "foldl (norm_step ?k) [] (split_slash W)"
  have nx: "normal_name (n @ x)" using n x by (rule normal_name_append)
  have nxs: "slash \<notin> set (n @ x)" using ns xs by simp
  have f: "foldl (norm_step ?k) [] (split_slash (W @ replicate j slash)) = ?C"
    by (simp add: split_slash_trailing norm_step_empty)
  have p: "normpath ((W @ replicate j slash) @ slash # n)
           = replicate ?k slash @ join_slash (?C @ [n])"
    using normpath_snoc [OF n ns, of "W @ replicate j slash"] k f by simp
  have p': "normpath (W @ slash # (n @ x)) = replicate ?k slash @ join_slash (?C @ [n @ x])"
    using normpath_snoc [OF nx nxs, of W] by simp
  show "normpath (W @ slash # (n @ x)) = normpath ((W @ replicate j slash) @ slash # n) @ x"
    using p p' by (simp add: join_slash_snoc_append)
  have nne: "n \<noteq> []" using n by (simp add: normal_name_def)
  have "join_slash (?C @ [n]) \<noteq> [] \<and> last (join_slash (?C @ [n])) = last (last (?C @ [n]))"
    by (rule last_join_slash) (simp_all add: nne)
  then have j: "join_slash (?C @ [n]) \<noteq> []" and l: "last (join_slash (?C @ [n])) = last n"
    by simp_all
  show "normpath ((W @ replicate j slash) @ slash # n) \<noteq> []" using p j by simp
  have "last n \<in> set n" using nne by simp
  then have "last n \<noteq> slash" using ns by metis
  then show "last (normpath ((W @ replicate j slash) @ slash # n)) \<noteq> slash"
    using p j l by simp
qed


lemma isabs_prefix: "isabs u \<Longrightarrow> isabs (u @ v)"
  by (cases u) (auto simp: isabs_def)

lemma join2_cwd:
  assumes "isabs cwd"
  shows "\<exists>V. \<forall>y. \<not> isabs y \<longrightarrow> join2 cwd y = V @ slash # y"
proof (cases "last cwd = slash")
  case True
  have "cwd \<noteq> []" using assms by (auto simp: isabs_def)
  with True have "cwd = butlast cwd @ [slash]" by (metis append_butlast_last_id)
  then have "\<forall>y. \<not> isabs y \<longrightarrow> join2 cwd y = butlast cwd @ slash # y"
    using True by (metis append.assoc append_Cons append_Nil join2_def)
  then show ?thesis by blast
next
  case False
  have "cwd \<noteq> []" using assms by (auto simp: isabs_def)
  then have "\<forall>y. \<not> isabs y \<longrightarrow> join2 cwd y = cwd @ slash # y"
    using False by (simp add: join2_def)
  then show ?thesis by blast
qed

lemma temp_paths:
  assumes c: "isabs cwd" and n: "normal_name (basename d)"
    and x: "x \<noteq> []" and xs: "slash \<notin> set x"
  shows "\<exists>W j.
      (if isabs d then d else join2 cwd d) = (W @ replicate j slash) @ slash # basename d
    \<and> (if isabs (temp_destination d x) then temp_destination d x
        else join2 cwd (temp_destination d x)) = W @ slash # (basename d @ x)
    \<and> initial_slashes ((W @ replicate j slash) @ slash # basename d)
        = initial_slashes (W @ slash # (basename d @ x))"
proof -
  let ?n = "basename d" and ?t = "temp_destination d x"
  have ns: "slash \<notin> set ?n" by (rule basename_no_slash)
  have nxs: "slash \<notin> set (?n @ x)" using ns xs by simp
  have nabs: "\<not> isabs ?n" and nxabs: "\<not> isabs (?n @ x)"
    using ns nxs by (simp_all only: plain_not_abs not_False_eq_True)
  obtain a n' where na: "?n = a # n'" and a: "a \<noteq> slash"
    using n ns by (cases ?n) (auto simp: normal_name_def)
  obtain V where V: "\<And>y. \<not> isabs y \<Longrightarrow> join2 cwd y = V @ slash # y"
    using join2_cwd [OF c] by blast
  have d: "d = head_raw d @ ?n" by (rule path_decompose)
  have t: "?t = join2 (dirname d) (?n @ x)" by (simp add: temp_destination_def join_def)
  have K0: "initial_slashes ((U @ replicate 0 slash) @ slash # ?n)
            = initial_slashes (U @ slash # (?n @ x))" for U
    using initial_slashes_prefix [OF a, of "U @ [slash]" n' "n' @ x"] na by simp
  from head_raw_shape [of d] show ?thesis
  proof
    assume h0: "head_raw d = []"
    then have dn: "d = ?n" using d by simp
    have "dirname d = []" using h0 by (simp add: dirname_def split_path_def)
    then have tn: "?t = ?n @ x" using t by (simp add: join2_def)
    have "(if isabs d then d else join2 cwd d) = (V @ replicate 0 slash) @ slash # ?n"
      using dn nabs V [OF nabs] by simp
    moreover have "(if isabs ?t then ?t else join2 cwd ?t) = V @ slash # (?n @ x)"
      using tn nxabs V [OF nxabs] by simp
    ultimately show ?thesis using K0 [of V] by blast
  next
    assume "\<exists>h. head_raw d = h @ [slash]"
    then obtain h where h: "head_raw d = h @ [slash]" ..
    then have dh: "d = h @ slash # ?n" using d by simp
    show ?thesis
    proof (cases "\<exists>c \<in> set (head_raw d). c \<noteq> slash")
      case False
      then have D: "dirname d = h @ [slash]" using h by (auto simp: dirname_def split_path_def Let_def)
      then have th: "?t = h @ slash # (?n @ x)" using t nxabs by (simp add: join2_def)
      have "hd (h @ [slash]) = slash" using False h by (cases h) auto
      then have "isabs (h @ [slash])" by (cases h) (auto simp: isabs_def)
      then have "isabs ((h @ [slash]) @ ?n)" and "isabs ((h @ [slash]) @ (?n @ x))"
        by (simp_all only: isabs_prefix)
      then have ad: "isabs d" and at: "isabs ?t" using dh th by simp_all
      have "(if isabs d then d else join2 cwd d) = (h @ replicate 0 slash) @ slash # ?n"
        using ad dh by simp
      moreover have "(if isabs ?t then ?t else join2 cwd ?t) = h @ slash # (?n @ x)"
        using at th by simp
      ultimately show ?thesis using K0 [of h] by blast
    next
      case True
      let ?G = "rstrip_slash h"
      have D: "dirname d = ?G"
        using True h by (auto simp: dirname_def split_path_def Let_def rstrip_snoc_slash)
      have "rstrip_slash (head_raw d) \<noteq> []" using True by (rule rstrip_nonempty)
      then have gne: "?G \<noteq> []" using h by (simp add: rstrip_snoc_slash)
      have gl: "last ?G \<noteq> slash" using rstrip_shape [of h] gne by simp
      obtain j where j: "h = ?G @ replicate j slash" using rstrip_decompose by blast
      have tg: "?t = ?G @ slash # (?n @ x)" using t D gne gl nxabs by (simp add: join2_def)
      have dg: "d = (?G @ replicate j slash) @ slash # ?n" using dh j by simp
      have iso: "isabs d = isabs ?G" "isabs ?t = isabs ?G"
        using dg tg gne by (metis isabs_simps(3) append.assoc)+
      have K: "initial_slashes ((W @ replicate j slash) @ slash # ?n)
               = initial_slashes (W @ slash # (?n @ x))"
        if "W \<noteq> []" and "last W \<noteq> slash" for W
      proof -
        have "W = butlast W @ [last W]" using that(1) by simp
        then have "(W @ replicate j slash) @ slash # ?n
                   = butlast W @ last W # (replicate j slash @ slash # ?n)"
          and "W @ slash # (?n @ x) = butlast W @ last W # (slash # (?n @ x))"
          by (metis append.assoc append_Cons append_Nil)+
        then show ?thesis using initial_slashes_prefix [OF that(2)] by metis
      qed
      show ?thesis
      proof (cases "isabs ?G")
        case True
        have "(if isabs d then d else join2 cwd d) = (?G @ replicate j slash) @ slash # ?n"
          using True iso dg by simp
        moreover have "(if isabs ?t then ?t else join2 cwd ?t) = ?G @ slash # (?n @ x)"
          using True iso tg by simp
        ultimately show ?thesis using K [OF gne gl] by blast
      next
        case False
        let ?W = "V @ slash # ?G"
        have "join2 cwd d = V @ slash # d" using V False iso by simp
        then have "(if isabs d then d else join2 cwd d) = (?W @ replicate j slash) @ slash # ?n"
          using False iso dg by (metis append.assoc append_Cons)
        moreover have "join2 cwd ?t = V @ slash # ?t" using V False iso by simp
        then have "(if isabs ?t then ?t else join2 cwd ?t) = ?W @ slash # (?n @ x)"
          using False iso tg by (metis append.assoc append_Cons)
        moreover have "?W \<noteq> []" and "last ?W \<noteq> slash" using gne gl by simp_all
        ultimately show ?thesis using K [of ?W] by blast
      qed
    qed
  qed
qed

lemma temp_separate:
  assumes c: "isabs cwd" and n: "normal_name (basename d)"
    and x: "x \<noteq> []" and xs: "slash \<notin> set x"
  shows "separate cwd d (temp_destination d x)"
proof -
  obtain W j where
    P: "(if isabs d then d else join2 cwd d) = (W @ replicate j slash) @ slash # basename d"
    and P': "(if isabs (temp_destination d x) then temp_destination d x
        else join2 cwd (temp_destination d x)) = W @ slash # (basename d @ x)"
    and K: "initial_slashes ((W @ replicate j slash) @ slash # basename d)
        = initial_slashes (W @ slash # (basename d @ x))"
    using temp_paths [OF assms] by blast
  note s = normpath_temp_shape [OF n basename_no_slash x xs K]
  have "abspath cwd (temp_destination d x) = abspath cwd d @ x"
    and "abspath cwd d \<noteq> []" and "last (abspath cwd d) \<noteq> slash"
    unfolding abspath_def P P' using s by simp_all
  then show ?thesis
    using inside_suffix [OF _ _ x xs, of "abspath cwd d"] by (simp add: separate_def Let_def)
qed

text \<open>
  C6. \<open>atomicish_move\<close> moves the source to a temporary name, the name of the
  destination with \<^verbatim>\<open>_TMP\<close> appended, in the directory of the destination, and then
  renames the temporary name to the destination. The operating system is taken to keep
  two contracts: \<^verbatim>\<open>shutil.move\<close>, whether it returns or raises, changes nothing that
  can be seen of a path separate from its two arguments, and an \<^verbatim>\<open>os.rename\<close> that
  raises has changed nothing. The destination is one whose last component is a name
  other than \<^verbatim>\<open>.\<close> and \<^verbatim>\<open>..\<close>, so that the temporary name is separate from it,
  and it is separate from the source; the current directory is absolute. Then: when the
  move raises, \<open>atomicish_move\<close> raises the same exception in the state the move
  left, and the destination is as it was; when the move returns, the destination is
  still as it was and the result is that of the rename; and when the rename raises, the
  temporary file is as the move left it and the destination is as it was before the
  call.
\<close>

theorem atomicish_move_two_phase:
  assumes move_frame: "\<forall>s a b r s1 p. move E s a b = (r, s1) \<longrightarrow> separate (getcwd E s) p a
            \<longrightarrow> separate (getcwd E s) p b \<longrightarrow> observe E s1 p = observe E s p"
    and rename_fails_clean: "\<forall>s a b e s1. rename E s a b = (Some e, s1) \<longrightarrow> s1 = s"
    and cwd_abs: "isabs (getcwd E s)"
    and name: "normal_name (basename destination)"
    and sep_source: "separate (getcwd E s) destination source"
  shows "dirname (temp_destination destination ''_TMP'') = dirname destination
    \<and> basename (temp_destination destination ''_TMP'') = basename destination @ ''_TMP''
    \<and> (\<forall>e s1. move E s source (temp_destination destination ''_TMP'') = (Some e, s1) \<longrightarrow>
          atomicish_move E s source destination ''_TMP'' = (Some e, s1)
          \<and> observe E s1 destination = observe E s destination)
    \<and> (\<forall>s1. move E s source (temp_destination destination ''_TMP'') = (None, s1) \<longrightarrow>
          atomicish_move E s source destination ''_TMP''
            = rename E s1 (temp_destination destination ''_TMP'') destination
          \<and> observe E s1 destination = observe E s destination
          \<and> (\<forall>e s2. rename E s1 (temp_destination destination ''_TMP'') destination = (Some e, s2) \<longrightarrow>
                observe E s2 (temp_destination destination ''_TMP'')
                  = observe E s1 (temp_destination destination ''_TMP'')
                \<and> observe E s2 destination = observe E s destination))"
proof -
  let ?t = "temp_destination destination ''_TMP''"
  have dir: "dirname ?t = dirname destination \<and> basename ?t = basename destination @ ''_TMP''"
    by (rule temp_same_dir) simp
  have sep_temp: "separate (getcwd E s) destination ?t"
    using cwd_abs name by (rule temp_separate) simp_all
  have untouched: "observe E s1 destination = observe E s destination"
    if "move E s source ?t = (r, s1)" for r s1
    using move_frame that sep_source sep_temp by blast
  have p1: "atomicish_move E s source destination ''_TMP'' = (Some e, s1)
            \<and> observe E s1 destination = observe E s destination"
    if "move E s source ?t = (Some e, s1)" for e s1
    using that untouched [OF that] by (simp add: atomicish_move_steps)
  have p2: "atomicish_move E s source destination ''_TMP'' = rename E s1 ?t destination
            \<and> observe E s1 destination = observe E s destination
            \<and> (\<forall>e s2. rename E s1 ?t destination = (Some e, s2) \<longrightarrow>
                  observe E s2 ?t = observe E s1 ?t
                  \<and> observe E s2 destination = observe E s destination)"
    if m: "move E s source ?t = (None, s1)" for s1
  proof -
    have a: "atomicish_move E s source destination ''_TMP'' = rename E s1 ?t destination"
      using m by (simp add: atomicish_move_steps)
    have b: "observe E s1 destination = observe E s destination" by (rule untouched [OF m])
    have c: "observe E s2 ?t = observe E s1 ?t \<and> observe E s2 destination = observe E s destination"
      if "rename E s1 ?t destination = (Some e, s2)" for e s2
    proof -
      from rename_fails_clean that have "s2 = s1" by blast
      with b show ?thesis by simp
    qed
    from a b c show ?thesis by blast
  qed
  from dir p1 p2 show ?thesis by blast
qed

theorem atomicish_move_two_phase_witness:
  "atomicish_move (mem_os (CopyFails 2)) fs_out ''/staging/101/result''
      ''/staging/101/outputs/data'' ''_TMP'' = (Some (IOError ENOSPC), fs_partial)
   \<and> observe (mem_os (CopyFails 2)) fs_partial ''/staging/101/outputs/data''
       = observe (mem_os (CopyFails 2)) fs_out ''/staging/101/outputs/data''
   \<and> observe (mem_os (CopyFails 2)) fs_out ''/staging/101/outputs/data''
       = (False, Inl (IOError ENOENT))
   \<and> observe (mem_os (CopyFails 2)) fs_partial ''/staging/101/outputs/data_TMP''
       = (True, Inr [1, 2])
   \<and> atomicish_move (mem_os NoFault) fs_out ''/staging/101/result''
       ''/staging/101/outputs'' ''_TMP'' = (Some (OSError EISDIR), fs_moved)
   \<and> observe (mem_os NoFault) fs_moved ''/staging/101/outputs_TMP'' = (True, Inr [1, 2, 3, 4])
   \<and> observe (mem_os NoFault) fs_moved ''/staging/101/outputs''
       = observe (mem_os NoFault) fs_out ''/staging/101/outputs''"
proof -
  let ?A = "mem_os (CopyFails 2)" and ?B = "mem_os NoFault"
  have ca: "isabs (getcwd ?A fs_out)" and cb: "isabs (getcwd ?B fs_out)"
    by (simp_all add: mem_defs fs_defs isabs_def)
  have na: "normal_name (basename ''/staging/101/outputs/data'')"
    and nb: "normal_name (basename ''/staging/101/outputs'')"
    by (simp_all add: normal_name_def basename_def)
  have sa: "separate (getcwd ?A fs_out) ''/staging/101/outputs/data'' ''/staging/101/result''"
    using sep_data [of "CopyFails 2"] by simp
  have sb: "separate (getcwd ?B fs_out) ''/staging/101/outputs'' ''/staging/101/result''"
    using sep_outputs [of NoFault] by simp
  note a = atomicish_move_two_phase [OF mem_move_frame mem_rename_fails_clean ca na sa]
  note b = atomicish_move_two_phase [OF mem_move_frame mem_rename_fails_clean cb nb sb]
  from a move_partial
  have a1: "atomicish_move ?A fs_out ''/staging/101/result'' ''/staging/101/outputs/data'' ''_TMP''
              = (Some (IOError ENOSPC), fs_partial)
            \<and> observe ?A fs_partial ''/staging/101/outputs/data''
              = observe ?A fs_out ''/staging/101/outputs/data''"
    unfolding temp_data by blast
  from b move_whole rename_onto_dir
  have b1: "atomicish_move ?B fs_out ''/staging/101/result'' ''/staging/101/outputs'' ''_TMP''
              = (Some (OSError EISDIR), fs_moved)
            \<and> observe ?B fs_moved ''/staging/101/outputs''
              = observe ?B fs_out ''/staging/101/outputs''"
    unfolding temp_outputs by metis
  have o1: "observe ?A fs_out ''/staging/101/outputs/data'' = (False, Inl (IOError ENOENT))"
    by (simp add: observe_def fs_defs path_defs mem_defs Let_def)
  have o2: "observe ?A fs_partial ''/staging/101/outputs/data_TMP'' = (True, Inr [1, 2])"
    by (simp add: observe_def fs_defs path_defs mem_defs Let_def)
  have o3: "observe ?B fs_moved ''/staging/101/outputs_TMP'' = (True, Inr [1, 2, 3, 4])"
    by (simp add: observe_def fs_defs path_defs mem_defs Let_def)
  from a1 b1 o1 o2 o3 show ?thesis by blast
qed

end
